theory Spec2Isabelle
  imports Complex_Main "HOL-Library.Sublist"
begin

text \<open>
  The expense tracker's utilities: the spending summary (utils/calculations.ts), the CSV
  exports (utils/export.ts, components/ExportModal.tsx), the currency parser
  (utils/currency.ts), the storage adapter (lib/storage.ts) and the form validation.
  Each function of the source is a function of the same name here; what it reads from the
  platform (the clock, the date and number formatting of the library) is a parameter.
\<close>

section \<open>Numbers\<close>

text \<open>
  A TypeScript \<open>number\<close> is an IEEE 754 double. The model keeps the finite doubles, each
  as the real number it denotes; \<open>NaN\<close> appears only as the result of a failed parse
  (\<open>None\<close>), and the infinities are not represented: a result beyond the largest double
  stays finite here, where the platform gives \<open>Infinity\<close>. An arithmetic result is the
  exact result rounded to the nearest double, ties to the even significand:
  \<open>roundToDouble\<close>.
\<close>

type_synonym number = real

definition roundHalfEven :: "real \<Rightarrow> int" where
  "roundHalfEven q =
     (let f = \<lfloor>q\<rfloor>; d = q - of_int f
      in if d < 1 / 2 then f else if 1 / 2 < d then f + 1 else if even f then f else f + 1)"

definition pow2 :: "int \<Rightarrow> real" where
  "pow2 e = (if 0 \<le> e then 2 ^ nat e else 1 / 2 ^ nat (- e))"

text \<open>
  The exponent \<open>e\<close> of the unit in the last place of \<open>a > 0\<close>: the significand
  \<open>a / 2 ^ e\<close> lies in \<open>[2 ^ 52, 2 ^ 53)\<close>, and \<open>e\<close> stops at \<open>- 1074\<close>, where the
  subnormal doubles begin.
\<close>

function expUp :: "real \<Rightarrow> int \<Rightarrow> int" where
  "expUp a e = (if 2 ^ 53 \<le> a then expUp (a / 2) (e + 1) else e)"
  by pat_completeness auto
termination
proof (relation "measure (\<lambda>(a, e). nat \<lceil>a\<rceil>)")
  show "wf (measure (\<lambda>(a, e). nat \<lceil>a\<rceil>))"
    by simp
next
  fix a :: real and e :: int
  assume big: "2 ^ 53 \<le> a"
  have "a / 2 + 1 \<le> a"
    using big by simp
  then have "\<lceil>a / 2\<rceil> < \<lceil>a\<rceil>"
    by linarith
  moreover have "0 < \<lceil>a\<rceil>"
    using big by (simp add: ceiling_less_iff)
  ultimately show "((a / 2, e + 1), (a, e)) \<in> measure (\<lambda>(a, e). nat \<lceil>a\<rceil>)"
    by simp
qed

function expDown :: "real \<Rightarrow> int \<Rightarrow> int" where
  "expDown a e = (if a < 2 ^ 52 \<and> - 1074 < e then expDown (a * 2) (e - 1) else e)"
  by pat_completeness auto
termination
  by (relation "measure (\<lambda>(a, e). nat (e + 1074))") auto

declare expUp.simps [simp del] expDown.simps [simp del]

definition roundToDouble :: "real \<Rightarrow> number" where
  "roundToDouble q =
     (if q = 0 then 0
      else let e = (if 2 ^ 53 \<le> \<bar>q\<bar> then expUp \<bar>q\<bar> 0 else expDown \<bar>q\<bar> 0)
           in of_int (roundHalfEven (q / pow2 e)) * pow2 e)"

text \<open>The operator \<open>+\<close> on two numbers.\<close>

definition jsAdd :: "number \<Rightarrow> number \<Rightarrow> number" where
  "jsAdd x y = roundToDouble (x + y)"

section \<open>Data model (types/expense.ts)\<close>

datatype ExpenseCategory = Food | Transportation | Entertainment | Shopping | Bills | Other

text \<open>
  The field \<open>id\<close> is written \<open>id'\<close>: \<open>id\<close> is the identity function of HOL. A string
  is a list of 8-bit characters; a character beyond ASCII is the bytes of its UTF-8
  encoding. The code below tells apart only ASCII characters (digits, the decimal point,
  the double quote), so it treats those bytes as it treats the one UTF-16 unit.
\<close>

record Expense =
  id' :: string
  date :: string
  amount :: number
  category :: ExpenseCategory
  description :: string
  createdAt :: string
  updatedAt :: string

text \<open>
  \<open>topCategory\<close> is \<open>{ category, amount } | null\<close> in the source: a pair, or \<open>None\<close>
  for \<open>null\<close>. \<open>categoryBreakdown\<close> is an object with exactly the six category keys: a
  total function on \<open>ExpenseCategory\<close>.
\<close>

record SpendingSummary =
  totalSpending :: number
  monthlySpending :: number
  categoryBreakdown :: "ExpenseCategory \<Rightarrow> number"
  topCategory :: "(ExpenseCategory \<times> number) option"

section \<open>Aggregation (utils/calculations.ts)\<close>

text \<open>
  What \<open>calculateSpendingSummary\<close> reads from the platform: \<open>parseDate s\<close> is the time
  value of \<open>new Date(s)\<close> in milliseconds (\<open>None\<close> for an invalid date), and
  \<open>monthStart\<close>, \<open>monthEnd\<close> are \<open>startOfMonth(now)\<close> and \<open>endOfMonth(now)\<close>.
\<close>

record Clock =
  parseDate :: "string \<Rightarrow> int option"
  monthStart :: int
  monthEnd :: int

text \<open>
  \<open>isWithinInterval\<close> of date-fns, both bounds included: an invalid date is in no
  interval. The bounds here are the first and the last instant of one month, so the
  interval is never reversed.
\<close>

definition isWithinInterval :: "int option \<Rightarrow> int \<Rightarrow> int \<Rightarrow> bool" where
  "isWithinInterval t start end' =
     (case t of None \<Rightarrow> False | Some x \<Rightarrow> start \<le> x \<and> x \<le> end')"

text \<open>\<open>xs.reduce((sum, expense) => sum + expense.amount, 0)\<close>\<close>

definition sumAmounts :: "Expense list \<Rightarrow> number" where
  "sumAmounts xs = foldl (\<lambda>sum expense. jsAdd sum (amount expense)) 0 xs"

text \<open>The object literal with six zero buckets, and the order \<open>Object.keys\<close> lists its keys in.\<close>

definition initialBreakdown :: "ExpenseCategory \<Rightarrow> number" where
  "initialBreakdown = (\<lambda>c. 0)"

definition categoryKeys :: "ExpenseCategory list" where
  "categoryKeys = [Food, Transportation, Entertainment, Shopping, Bills, Other]"

text \<open>\<open>categoryBreakdown[expense.category] += expense.amount\<close>\<close>

definition addToBucket :: "(ExpenseCategory \<Rightarrow> number) \<Rightarrow> Expense \<Rightarrow> ExpenseCategory \<Rightarrow> number" where
  "addToBucket cb expense = cb(category expense := jsAdd (cb (category expense)) (amount expense))"

definition breakdownOf :: "Expense list \<Rightarrow> ExpenseCategory \<Rightarrow> number" where
  "breakdownOf xs = foldl addToBucket initialBreakdown xs"

text \<open>
  The scan for the top category: the state is \<open>(topCategory, maxAmount)\<close>, and a bucket
  replaces it only when it is strictly greater than \<open>maxAmount\<close>.
\<close>

definition topStep ::
  "(ExpenseCategory \<Rightarrow> number) \<Rightarrow> (ExpenseCategory \<times> number) option \<times> number \<Rightarrow> ExpenseCategory
   \<Rightarrow> (ExpenseCategory \<times> number) option \<times> number" where
  "topStep cb st c = (if snd st < cb c then (Some (c, cb c), cb c) else st)"

definition findTopCategory :: "(ExpenseCategory \<Rightarrow> number) \<Rightarrow> (ExpenseCategory \<times> number) option" where
  "findTopCategory cb = fst (foldl (topStep cb) (None, 0) categoryKeys)"

definition calculateSpendingSummary :: "Clock \<Rightarrow> Expense list \<Rightarrow> SpendingSummary" where
  "calculateSpendingSummary clock expenses =
     (let total = sumAmounts expenses;
          monthly = sumAmounts
            (filter (\<lambda>expense. isWithinInterval (parseDate clock (date expense))
                                (monthStart clock) (monthEnd clock)) expenses);
          cb = breakdownOf expenses
      in \<lparr> totalSpending = total, monthlySpending = monthly,
           categoryBreakdown = cb, topCategory = findTopCategory cb \<rparr>)"

text \<open>The position of a category in \<open>categoryKeys\<close>.\<close>

definition keyPos :: "ExpenseCategory \<Rightarrow> nat" where
  "keyPos c = length (takeWhile (\<lambda>k. k \<noteq> c) categoryKeys)"

section \<open>Sums and rounding\<close>

text \<open>No addition of the fold from \<open>acc\<close> over \<open>xs\<close> rounds.\<close>

fun exactFrom :: "number \<Rightarrow> number list \<Rightarrow> bool" where
  "exactFrom acc [] = True"
| "exactFrom acc (x # xs) = (jsAdd acc x = acc + x \<and> exactFrom (acc + x) xs)"

definition amountsOf :: "ExpenseCategory \<Rightarrow> Expense list \<Rightarrow> number list" where
  "amountsOf c xs = map amount (filter (\<lambda>expense. category expense = c) xs)"

text \<open>
  None of the additions rounds: those that build the total, those that build each bucket,
  and those that add the six buckets in key order.
\<close>

definition noRounding :: "Expense list \<Rightarrow> bool" where
  "noRounding xs =
     (exactFrom 0 (map amount xs) \<and> list_all (\<lambda>c. exactFrom 0 (amountsOf c xs)) categoryKeys \<and>
      exactFrom 0 (map (breakdownOf xs) categoryKeys))"

text \<open>
  None of these additions overflows: an exact sum of magnitude at most \<open>2 ^ 1023\<close> rounds
  to a finite double, so on such a run the platform's \<open>+\<close> returns what \<open>jsAdd\<close>
  returns.
\<close>

fun finiteFrom :: "number \<Rightarrow> number list \<Rightarrow> bool" where
  "finiteFrom acc [] = True"
| "finiteFrom acc (x # xs) = (\<bar>acc + x\<bar> \<le> 2 ^ 1023 \<and> finiteFrom (jsAdd acc x) xs)"

definition noOverflow :: "Expense list \<Rightarrow> bool" where
  "noOverflow xs =
     (finiteFrom 0 (map amount xs) \<and> list_all (\<lambda>c. finiteFrom 0 (amountsOf c xs)) categoryKeys \<and>
      finiteFrom 0 (map (breakdownOf xs) categoryKeys))"

text \<open>
  The rounding of one addition is at most \<open>unitRoundoff\<close> times the magnitude of its exact
  result, plus half the spacing of the subnormal doubles. Over \<open>n\<close> additions of amounts
  whose magnitudes sum to \<open>a\<close> the errors grow to at most \<open>roundingBound n a\<close>,
  that is \<open>((1 + 1 / 2 ^ 53) ^ n - 1) * (2 * a + 7 / 2 ^ 1022)\<close>, about
  \<open>n * a / 2 ^ 52\<close>.
\<close>

definition unitRoundoff :: real where
  "unitRoundoff = 1 / 2 ^ 53"

definition smallestNormal :: real where
  "smallestNormal = 1 / 2 ^ 1022"

definition growth :: "nat \<Rightarrow> real" where
  "growth n = (1 + unitRoundoff) ^ n - 1"

definition roundingBound :: "nat \<Rightarrow> real \<Rightarrow> real" where
  "roundingBound n a = growth n * (2 * a + 7 * smallestNormal)"

section \<open>CSV export (utils/export.ts, components/ExportModal.tsx)\<close>

text \<open>\<open>Array.prototype.join\<close> on an array of strings.\<close>

fun joinWith :: "string \<Rightarrow> string list \<Rightarrow> string" where
  "joinWith sep [] = []"
| "joinWith sep [x] = x"
| "joinWith sep (x # y # ys) = x @ sep @ joinWith sep (y # ys)"

definition dquote :: char where
  "dquote = CHR 0x22"

definition newline :: char where
  "newline = CHR 0x0A"

text \<open>A category is its own name as a string.\<close>

fun categoryName :: "ExpenseCategory \<Rightarrow> string" where
  "categoryName Food = ''Food''"
| "categoryName Transportation = ''Transportation''"
| "categoryName Entertainment = ''Entertainment''"
| "categoryName Shopping = ''Shopping''"
| "categoryName Bills = ''Bills''"
| "categoryName Other = ''Other''"

text \<open>\<open>`"${description.replace(/"/g, '""')}"`\<close>\<close>

definition doubleQuotes :: "string \<Rightarrow> string" where
  "doubleQuotes s = concat (map (\<lambda>c. if c = dquote then [dquote, dquote] else [c]) s)"

definition quoteDescription :: "string \<Rightarrow> string" where
  "quoteDescription s = [dquote] @ doubleQuotes s @ [dquote]"

text \<open>
  \<open>generateCSV\<close> of the export modal (the dashboard's \<open>handleExportCSV\<close> builds the same
  text). \<open>numberToString\<close> stands for \<open>Number.prototype.toString\<close>.
\<close>

definition generateCSV :: "(number \<Rightarrow> string) \<Rightarrow> Expense list \<Rightarrow> string" where
  "generateCSV numberToString data =
     (let headers = [''Date'', ''Category'', ''Amount'', ''Description''];
          rows = map (\<lambda>expense. [date expense, categoryName (category expense),
                                   numberToString (amount expense),
                                   quoteDescription (description expense)]) data
      in joinWith [newline] (joinWith '','' headers # map (\<lambda>row. joinWith '','' row) rows))"

text \<open>One row of \<open>generateCSV\<close> as text: its four fields joined by commas.\<close>

definition modalRow :: "(number \<Rightarrow> string) \<Rightarrow> Expense \<Rightarrow> string" where
  "modalRow numberToString expense =
     date expense @ '','' @ categoryName (category expense) @ '','' @
     numberToString (amount expense) @ '','' @ quoteDescription (description expense)"

text \<open>
  \<open>exportToCSV\<close> of utils/export.ts returns nothing: it alerts on an empty list, and
  otherwise hands the CSV text to the browser as a download (the file name is left out).
  \<open>formatDate s\<close> stands for \<open>format(new Date(s), 'dd/MM/yyyy')\<close> of date-fns, which
  throws a RangeError on an invalid date (\<open>None\<close>), and \<open>toFixed2\<close> for
  \<open>Number.prototype.toFixed(2)\<close>.
\<close>

datatype ExportOutcome = Alert string | RangeError | Download string

definition exportRow :: "(number \<Rightarrow> string) \<Rightarrow> Expense \<Rightarrow> string \<Rightarrow> string" where
  "exportRow toFixed2 expense formatted =
     joinWith '','' [formatted, categoryName (category expense), toFixed2 (amount expense),
                     quoteDescription (description expense)]"

text \<open>The rows in order; the first date that does not format ends the map with its RangeError.\<close>

fun exportRows ::
  "(string \<Rightarrow> string option) \<Rightarrow> (number \<Rightarrow> string) \<Rightarrow> Expense list \<Rightarrow> string list option" where
  "exportRows formatDate toFixed2 [] = Some []"
| "exportRows formatDate toFixed2 (expense # rest) =
     (case formatDate (date expense) of
        None \<Rightarrow> None
      | Some formatted \<Rightarrow>
          (case exportRows formatDate toFixed2 rest of
             None \<Rightarrow> None
           | Some rows \<Rightarrow> Some (exportRow toFixed2 expense formatted # rows)))"

definition exportToCSV ::
  "(string \<Rightarrow> string option) \<Rightarrow> (number \<Rightarrow> string) \<Rightarrow> Expense list \<Rightarrow> ExportOutcome" where
  "exportToCSV formatDate toFixed2 expenses =
     (if length expenses = 0 then Alert ''No expenses to export''
      else let headers = [''Date'', ''Category'', ''Amount (GBP)'', ''Description'']
           in case exportRows formatDate toFixed2 expenses of
                None \<Rightarrow> RangeError
              | Some rows \<Rightarrow> Download (joinWith [newline] (joinWith '','' headers # rows)))"

text \<open>
  A reader of one quoted field as RFC 4180 defines it: after the opening quote, two
  double quotes stand for one, and a single double quote closes the field. It returns the
  field and the text after it, or \<open>None\<close> when the text does not start with a closed
  quoted field.
\<close>

fun readQuoted :: "string \<Rightarrow> (string \<times> string) option" where
  "readQuoted [] = None"
| "readQuoted [c] = (if c = dquote then Some ([], []) else None)"
| "readQuoted (c # d # cs) =
     (if c = dquote then
        (if d = dquote then map_option (\<lambda>(field, rest). (dquote # field, rest)) (readQuoted cs)
         else Some ([], d # cs))
      else map_option (\<lambda>(field, rest). (c # field, rest)) (readQuoted (d # cs)))"

definition readQuotedField :: "string \<Rightarrow> (string \<times> string) option" where
  "readQuotedField s = (case s of [] \<Rightarrow> None | c # cs \<Rightarrow> if c = dquote then readQuoted cs else None)"

definition firstLine :: "string \<Rightarrow> string" where
  "firstLine s = takeWhile (\<lambda>c. c \<noteq> newline) s"

section \<open>Currency parsing (utils/currency.ts)\<close>

definition isDigit :: "char \<Rightarrow> bool" where
  "isDigit c = (c \<in> set ''0123456789'')"

definition digitValue :: "char \<Rightarrow> nat" where
  "digitValue c = of_char c - 48"

text \<open>The number a string of decimal digits denotes; \<open>0\<close> for the empty string.\<close>

definition digitsToNat :: "string \<Rightarrow> nat" where
  "digitsToNat ds = foldl (\<lambda>n c. 10 * n + digitValue c) 0 ds"

text \<open>
  \<open>parseFloat\<close> on the strings \<open>parseCurrency\<close> passes to it. After the replace only
  digits and decimal points are left, so no white space, sign, exponent or \<open>Infinity\<close>
  can occur: \<open>parseFloat\<close> reads the longest prefix of the form \<open>digits\<close>,
  \<open>digits.digits\<close>, \<open>digits.\<close> or \<open>.digits\<close> and ignores what follows it; the result
  is the double nearest to the decimal read, or \<open>NaN\<close> (\<open>None\<close>) when that prefix has no
  digit. (A decimal beyond the largest double, of more than 308 digits, reads as
  \<open>Infinity\<close> on the platform; see the note on numbers.)
\<close>

definition parseFloat :: "string \<Rightarrow> number option" where
  "parseFloat s =
     (let intPart = takeWhile isDigit s;
          rest = dropWhile isDigit s;
          fracPart = (case rest of [] \<Rightarrow> [] | c # cs \<Rightarrow> if c = CHR ''.'' then takeWhile isDigit cs else [])
      in if intPart = [] \<and> fracPart = [] then None
         else Some (roundToDouble
                (of_nat (digitsToNat (intPart @ fracPart)) / 10 ^ length fracPart)))"

text \<open>The prefix of a string that \<open>parseFloat\<close> reads.\<close>

definition numericPrefix :: "string \<Rightarrow> string" where
  "numericPrefix s =
     (case dropWhile isDigit s of
        [] \<Rightarrow> takeWhile isDigit s
      | c # cs \<Rightarrow> if c = CHR ''.'' then takeWhile isDigit s @ CHR ''.'' # takeWhile isDigit cs
                 else takeWhile isDigit s)"

text \<open>\<open>value.replace(/[^\d.]/g, '')\<close>\<close>

definition cleaned :: "string \<Rightarrow> string" where
  "cleaned s = filter (\<lambda>c. isDigit c \<or> c = CHR ''.'') s"

definition parseCurrency :: "string \<Rightarrow> number" where
  "parseCurrency s = (case parseFloat (cleaned s) of None \<Rightarrow> 0 | Some parsed \<Rightarrow> parsed)"

text \<open>
  The claim's reading of \<open>parseCurrency\<close>, for comparison with the code: a valid number
  is a string of digits with at most one decimal point and at least one digit, and its
  value is the integer its digits spell, divided by ten for each digit after the point.
\<close>

definition isDecimal :: "string \<Rightarrow> bool" where
  "isDecimal s =
     (list_all (\<lambda>c. isDigit c \<or> c = CHR ''.'') s \<and> count_list s (CHR ''.'') \<le> 1 \<and>
      list_ex isDigit s)"

definition decimalValue :: "string \<Rightarrow> real" where
  "decimalValue s =
     of_nat (digitsToNat (filter isDigit s)) /
       10 ^ (if CHR ''.'' \<in> set s then length (takeWhile isDigit (rev s)) else 0)"

definition spec_parseCurrency :: "string \<Rightarrow> number" where
  "spec_parseCurrency s =
     (if isDecimal (cleaned s) then roundToDouble (decimalValue (cleaned s)) else 0)"

text \<open>The pound sign, U+00A3, in UTF-8.\<close>

definition pound :: string where
  "pound = [CHR 0xC2, CHR 0xA3]"

section \<open>Storage (lib/storage.ts)\<close>

text \<open>
  The browser's local storage under the key \<open>expense-tracker-data\<close>: \<open>stored\<close> is the
  array the JSON text under the key parses to (the empty list when the key is absent),
  and \<open>writable\<close> tells whether \<open>setItem\<close> succeeds. When it throws (the quota is
  exceeded), \<open>saveExpenses\<close> logs the error and the stored text stays as it was.
\<close>

record Storage =
  stored :: "Expense list"
  writable :: bool

definition getExpenses :: "Storage \<Rightarrow> Expense list" where
  "getExpenses st = stored st"

definition saveExpenses :: "Storage \<Rightarrow> Expense list \<Rightarrow> Storage" where
  "saveExpenses st expenses = (if writable st then st\<lparr>stored := expenses\<rparr> else st)"

text \<open>
  \<open>Partial<Omit<Expense, 'id' | 'createdAt' | 'updatedAt'>>\<close>: each of the four fields is
  present (\<open>Some\<close>) or absent.
\<close>

record ExpenseUpdates =
  newDate :: "string option"
  newAmount :: "number option"
  newCategory :: "ExpenseCategory option"
  newDescription :: "string option"

text \<open>\<open>Array.prototype.findIndex\<close>: the first index whose element satisfies \<open>p\<close>; \<open>None\<close> for \<open>-1\<close>.\<close>

fun findIndex :: "('a \<Rightarrow> bool) \<Rightarrow> 'a list \<Rightarrow> nat option" where
  "findIndex p [] = None"
| "findIndex p (x # xs) = (if p x then Some 0 else map_option Suc (findIndex p xs))"

text \<open>\<open>{ ...expenses[index], ...updates, updatedAt: now }\<close>\<close>

definition mergeUpdates :: "Expense \<Rightarrow> ExpenseUpdates \<Rightarrow> string \<Rightarrow> Expense" where
  "mergeUpdates expense updates now =
     expense\<lparr> date := (case newDate updates of None \<Rightarrow> date expense | Some d \<Rightarrow> d),
               amount := (case newAmount updates of None \<Rightarrow> amount expense | Some a \<Rightarrow> a),
               category := (case newCategory updates of None \<Rightarrow> category expense | Some c \<Rightarrow> c),
               description :=
                 (case newDescription updates of None \<Rightarrow> description expense | Some d \<Rightarrow> d),
               updatedAt := now \<rparr>"

text \<open>
  \<open>updateExpense\<close>: \<open>now\<close> is \<open>new Date().toISOString()\<close>. The result is the returned
  expense (\<open>None\<close> for \<open>null\<close>) and the storage afterwards.
\<close>

definition updateExpense ::
  "Storage \<Rightarrow> string \<Rightarrow> ExpenseUpdates \<Rightarrow> string \<Rightarrow> Expense option \<times> Storage" where
  "updateExpense st i updates now =
     (let expenses = getExpenses st
      in case findIndex (\<lambda>exp. id' exp = i) expenses of
           None \<Rightarrow> (None, st)
         | Some index \<Rightarrow>
             (let updatedExpense = mergeUpdates (expenses ! index) updates now
              in (Some updatedExpense, saveExpenses st (expenses[index := updatedExpense]))))"

section \<open>Form validation (utils/validation.ts)\<close>

text \<open>
  \<open>ExpenseFormData\<close> of types/expense.ts, its fields prefixed with \<open>form\<close> (the
  record \<open>Expense\<close> has fields of the same names). The category is a string here: the
  form can hold the empty string, as the tests of the validation pass it.
\<close>

record ExpenseFormData =
  formDate :: string
  formAmount :: string
  formCategory :: string
  formDescription :: string

text \<open>
  Modelled from the spec: \<open>utils/validation.ts\<close> (\<open>validateExpenseForm\<close>, \<open>hasErrors\<close>)
  is not among the source files; only its tests and its caller are. The rules below
  follow section 4.1 of the specification. What the platform provides is a parameter:
  \<open>parseNumber\<close> reads the amount string (\<open>None\<close> when it is not parseable as a number),
  \<open>parseInstant\<close> reads the date string as a time value (\<open>None\<close> for an invalid date),
  and \<open>now\<close> is the current time value. The date rule: empty, "Date is required"; an
  instant strictly later than now, "Date cannot be in the future"; otherwise valid.
\<close>

definition dateRule :: "(string \<Rightarrow> int option) \<Rightarrow> int \<Rightarrow> string \<Rightarrow> string option" where
  "dateRule parseInstant now d =
     (if d = [] then Some ''Date is required''
      else case parseInstant d of
             None \<Rightarrow> None
           | Some t \<Rightarrow> if now < t then Some ''Date cannot be in the future'' else None)"

text \<open>
  Modelled from the spec: the amount rule of section 4.1 (\<open>utils/validation.ts\<close> is
  missing). Empty, "Amount is required"; not parseable as a number, or \<open>\<le> 0\<close>, "Amount
  must be a positive number"; above 1,000,000, "Amount seems unreasonably large"; otherwise
  valid.
\<close>

definition amountRule :: "(string \<Rightarrow> number option) \<Rightarrow> string \<Rightarrow> string option" where
  "amountRule parseNumber a =
     (if a = [] then Some ''Amount is required''
      else case parseNumber a of
             None \<Rightarrow> Some ''Amount must be a positive number''
           | Some v \<Rightarrow>
               if v \<le> 0 then Some ''Amount must be a positive number''
               else if 1000000 < v then Some ''Amount seems unreasonably large''
               else None)"

text \<open>
  Modelled from the spec: the category rule of section 4.1 (\<open>utils/validation.ts\<close> is
  missing). Empty, "Category is required"; otherwise valid.
\<close>

definition categoryRule :: "string \<Rightarrow> string option" where
  "categoryRule c = (if c = [] then Some ''Category is required'' else None)"

text \<open>
  Modelled from the spec: the description rule of section 4.1 (\<open>utils/validation.ts\<close> is
  missing). Empty or all white space, "Description is required"; longer than 200
  characters, "Description must be less than 200 characters" (the specification leaves
  open whether the length is taken before or after trimming; the raw length is taken
  here, and no claim depends on it); otherwise valid.
\<close>

definition isSpace :: "char \<Rightarrow> bool" where
  "isSpace c = (c \<in> set [CHR '' '', CHR 0x09, CHR 0x0A, CHR 0x0B, CHR 0x0C, CHR 0x0D])"

definition descriptionRule :: "string \<Rightarrow> string option" where
  "descriptionRule d =
     (if list_all isSpace d then Some ''Description is required''
      else if 200 < length d then Some ''Description must be less than 200 characters''
      else None)"

text \<open>
  Modelled from the spec: \<open>validateExpenseForm\<close> (\<open>utils/validation.ts\<close> is missing) maps
  the name of each field that fails its rule to the message; a field without a key is
  valid.
\<close>

definition validateExpenseForm ::
  "(string \<Rightarrow> number option) \<Rightarrow> (string \<Rightarrow> int option) \<Rightarrow> int \<Rightarrow> ExpenseFormData
   \<Rightarrow> (string \<rightharpoonup> string)" where
  "validateExpenseForm parseNumber parseInstant now formData =
     (\<lambda>field.
        if field = ''date'' then dateRule parseInstant now (formDate formData)
        else if field = ''amount'' then amountRule parseNumber (formAmount formData)
        else if field = ''category'' then categoryRule (formCategory formData)
        else if field = ''description'' then descriptionRule (formDescription formData)
        else None)"

text \<open>
  Modelled from the spec: \<open>hasErrors\<close> (\<open>utils/validation.ts\<close> is missing) tells whether
  any field produced an error.
\<close>

definition hasErrors :: "(string \<rightharpoonup> string) \<Rightarrow> bool" where
  "hasErrors errors = (\<exists>field \<in> set [''date'', ''amount'', ''category'', ''description''].
     errors field \<noteq> None)"

section \<open>Sample data\<close>

text \<open>
  The fixtures of \<open>__tests__/utils/calculations.test.ts\<close>, with 15 January 2025 for the
  current day, on a clock that reads January 2025 (UTC) and knows the two dates the
  fixtures use.
\<close>

definition sampleClock :: Clock where
  "sampleClock =
     \<lparr> parseDate = (\<lambda>s. if s = ''2025-01-15'' then Some 1736899200000
                         else if s = ''2020-01-01'' then Some 1577836800000 else None),
       monthStart = 1735689600000, monthEnd = 1738367999999 \<rparr>"

definition mkExpense :: "string \<Rightarrow> string \<Rightarrow> number \<Rightarrow> ExpenseCategory \<Rightarrow> string \<Rightarrow> Expense" where
  "mkExpense i d a c descr =
     \<lparr> id' = i, date = d, amount = a, category = c, description = descr,
       createdAt = ''2025-01-15T00:00:00.000Z'', updatedAt = ''2025-01-15T00:00:00.000Z'' \<rparr>"

definition mockExpenses :: "Expense list" where
  "mockExpenses =
     [mkExpense ''1'' ''2025-01-15'' 50 Food ''Groceries'',
      mkExpense ''2'' ''2025-01-15'' 100 Transportation ''Gas'',
      mkExpense ''3'' ''2025-01-15'' 75 Food ''Restaurant'',
      mkExpense ''4'' ''2020-01-01'' 200 Bills ''Old bill'']"

text \<open>Two categories with the same amount, the later key first in the list.\<close>

definition equalExpenses :: "Expense list" where
  "equalExpenses =
     [mkExpense ''1'' ''2025-01-15'' 50 Transportation ''Bus'',
      mkExpense ''2'' ''2025-01-15'' 50 Food ''Lunch'']"

text \<open>
  The decimal amounts of the test "should correctly sum decimal amounts", 10.99 and 5.50,
  both Food.
\<close>

definition decimalExpenses :: "Expense list" where
  "decimalExpenses =
     [mkExpense ''1'' ''2025-01-15'' (roundToDouble (1099 / 100)) Food ''Coffee'',
      mkExpense ''2'' ''2025-01-15'' (roundToDouble (55 / 10)) Food ''Snack'']"

text \<open>Three expenses of 0.1, 0.7 and 0.3: each amount is the double its literal denotes.\<close>

definition roundingExpenses :: "Expense list" where
  "roundingExpenses =
     [mkExpense ''1'' ''2025-01-15'' (roundToDouble (1 / 10)) Food ''Coffee'',
      mkExpense ''2'' ''2025-01-15'' (roundToDouble (7 / 10)) Transportation ''Bus'',
      mkExpense ''3'' ''2025-01-15'' (roundToDouble (3 / 10)) Food ''Snack'']"

text \<open>
  What the platform's formatting functions return on the dates and amounts of the
  fixtures (in the UTC time zone): \<open>format(new Date(s), 'dd/MM/yyyy')\<close>, \<open>toFixed(2)\<close>
  and \<open>toString()\<close>. No other date or amount is passed to them below.
\<close>

definition sampleFormatDate :: "string \<Rightarrow> string option" where
  "sampleFormatDate s =
     (if s = ''2025-01-15'' then Some ''15/01/2025''
      else if s = ''2020-01-01'' then Some ''01/01/2020'' else None)"

definition sampleToFixed2 :: "number \<Rightarrow> string" where
  "sampleToFixed2 x =
     (if x = 50 then ''50.00'' else if x = 100 then ''100.00''
      else if x = 75 then ''75.00'' else if x = 200 then ''200.00'' else ''0.00'')"

definition sampleNumberToString :: "number \<Rightarrow> string" where
  "sampleNumberToString x =
     (if x = 50 then ''50'' else if x = 100 then ''100''
      else if x = 75 then ''75'' else if x = 200 then ''200'' else ''0'')"

definition groceries :: Expense where
  "groceries = mkExpense ''1'' ''2025-01-15'' 50 Food ''Groceries''"

text \<open>A description with double quotes and a comma in it.\<close>

definition quip :: string where
  "quip = ''Dinner at '' @ [dquote] @ ''Joe's'' @ [dquote] @ '', with tip''"

text \<open>Three rows, the second with that description.\<close>

definition quotedExpenses :: "Expense list" where
  "quotedExpenses = [groceries, groceries\<lparr>description := quip\<rparr>, groceries]"

text \<open>A storage that holds the fixtures, an edit of the third expense, and its time stamp.\<close>

definition sampleStorage :: Storage where
  "sampleStorage = \<lparr> stored = mockExpenses, writable = True \<rparr>"

definition sampleUpdates :: ExpenseUpdates where
  "sampleUpdates = \<lparr> newDate = None, newAmount = Some 80, newCategory = None,
                       newDescription = Some ''Dinner'' \<rparr>"

definition sampleNow :: string where
  "sampleNow = ''2025-02-01T09:00:00.000Z''"

text \<open>The valid form of \<open>__tests__/utils/validation.test.ts\<close>, and an instant on 15 January 2025.\<close>

definition validFormData :: ExpenseFormData where
  "validFormData = \<lparr> formDate = ''2025-01-15'', formAmount = ''50.00'', formCategory = ''Food'',
                       formDescription = ''Test expense'' \<rparr>"

definition sampleToday :: int where
  "sampleToday = 1736899200000 + 43200000"

section \<open>Properties of the number model\<close>

lemma expDown_le: "expDown a e \<le> e"
proof (induction a e rule: expDown.induct)
  case (1 a e)
  show ?case
  proof (cases "a < 2 ^ 52 \<and> - 1074 < e")
    case True
    then have "expDown a e = expDown (a * 2) (e - 1)"
      by (subst expDown.simps) simp
    moreover have "expDown (a * 2) (e - 1) \<le> e - 1"
      using 1 True by simp
    ultimately show ?thesis by simp
  next
    case False
    then show ?thesis
      by (subst expDown.simps) auto
  qed
qed

lemma roundHalfEven_of_int: "roundHalfEven (of_int z) = z"
  by (simp add: roundHalfEven_def)

lemma roundToDouble_of_int:
  assumes "\<bar>n\<bar> \<le> 2 ^ 53"
  shows "roundToDouble (of_int n) = of_int n"
proof (cases "n = 0")
  case True
  then show ?thesis by (simp add: roundToDouble_def)
next
  case nz: False
  show ?thesis
  proof (cases "\<bar>n\<bar> = 2 ^ 53")
    case True
    then consider "n = 2 ^ 53" | "n = - (2 ^ 53)"
      by (auto simp: abs_if split: if_splits)
    then show ?thesis
    proof cases
      case 1
      then show ?thesis
        by (simp add: roundToDouble_def expUp.simps pow2_def roundHalfEven_def)
    next
      case 2
      then show ?thesis
        by (simp add: roundToDouble_def expUp.simps pow2_def roundHalfEven_def)
    qed
  next
    case False
    with assms have lt: "\<bar>n\<bar> < 2 ^ 53" by simp
    then have a: "\<not> 2 ^ 53 \<le> \<bar>real_of_int n\<bar>"
      by (metis not_le of_int_abs of_int_less_iff of_int_numeral of_int_power)
    define e where "e = expDown \<bar>real_of_int n\<bar> 0"
    have "e \<le> 0" unfolding e_def by (rule expDown_le)
    define k where "k = nat (- e)"
    have p: "pow2 e = 1 / 2 ^ k"
      using \<open>e \<le> 0\<close> by (cases "e = 0") (simp_all add: pow2_def k_def)
    have "real_of_int n / pow2 e = of_int (n * 2 ^ k)"
      by (simp add: p)
    then have "roundHalfEven (real_of_int n / pow2 e) = n * 2 ^ k"
      by (simp only: roundHalfEven_of_int)
    then have "of_int (roundHalfEven (real_of_int n / pow2 e)) * pow2 e = of_int n"
      by (simp add: p)
    then show ?thesis
      using nz a by (simp add: roundToDouble_def e_def Let_def)
  qed
qed

section \<open>Properties of the aggregation\<close>

lemma roundToDouble_0: "roundToDouble 0 = 0"
  by (simp add: roundToDouble_def)

lemma jsAdd_0_0: "jsAdd 0 0 = 0"
  by (simp add: jsAdd_def roundToDouble_0)

lemma topScan_invariant:
  fixes cb :: "ExpenseCategory \<Rightarrow> number"
  shows "\<exists>t m. foldl (topStep cb) (t0, m0) ks = (t, m) \<and> (\<forall>k \<in> set ks. cb k \<le> m) \<and>
           ((t = t0 \<and> m = m0) \<or>
            (\<exists>i < length ks. t = Some (ks ! i, cb (ks ! i)) \<and> m = cb (ks ! i) \<and> m0 < m \<and>
               (\<forall>j < i. cb (ks ! j) < m)))"
proof (induction ks rule: rev_induct)
  case Nil
  show ?case by simp
next
  case (snoc k ks)
  then obtain t m where run: "foldl (topStep cb) (t0, m0) ks = (t, m)"
    and ub: "\<forall>x \<in> set ks. cb x \<le> m"
    and shape: "(t = t0 \<and> m = m0) \<or>
            (\<exists>i < length ks. t = Some (ks ! i, cb (ks ! i)) \<and> m = cb (ks ! i) \<and> m0 < m \<and>
               (\<forall>j < i. cb (ks ! j) < m))"
    by blast
  show ?case
  proof (cases "m < cb k")
    case True
    have below: "\<forall>j < length ks. cb ((ks @ [k]) ! j) < cb k"
      using ub True by (auto simp: nth_append) (meson le_less_trans nth_mem)
    have m0: "m0 < cb k"
      using shape True by auto
    have "foldl (topStep cb) (t0, m0) (ks @ [k]) = (Some (k, cb k), cb k)"
      using run True by (simp add: topStep_def)
    moreover have "\<forall>x \<in> set (ks @ [k]). cb x \<le> cb k"
      using ub True by auto
    moreover have "\<exists>i < length (ks @ [k]). Some (k, cb k) = Some ((ks @ [k]) ! i, cb ((ks @ [k]) ! i)) \<and>
        cb k = cb ((ks @ [k]) ! i) \<and> m0 < cb k \<and> (\<forall>j < i. cb ((ks @ [k]) ! j) < cb k)"
      using below m0 by (intro exI [of _ "length ks"]) simp
    ultimately show ?thesis
      by blast
  next
    case False
    have "foldl (topStep cb) (t0, m0) (ks @ [k]) = (t, m)"
      using run False by (simp add: topStep_def)
    moreover have "\<forall>x \<in> set (ks @ [k]). cb x \<le> m"
      using ub False by auto
    moreover have "(t = t0 \<and> m = m0) \<or>
            (\<exists>i < length (ks @ [k]). t = Some ((ks @ [k]) ! i, cb ((ks @ [k]) ! i)) \<and>
               m = cb ((ks @ [k]) ! i) \<and> m0 < m \<and> (\<forall>j < i. cb ((ks @ [k]) ! j) < m))"
      using shape
    proof
      assume "t = t0 \<and> m = m0"
      then show ?thesis by simp
    next
      assume "\<exists>i < length ks. t = Some (ks ! i, cb (ks ! i)) \<and> m = cb (ks ! i) \<and> m0 < m \<and>
               (\<forall>j < i. cb (ks ! j) < m)"
      then obtain i where i: "i < length ks" "t = Some (ks ! i, cb (ks ! i))" "m = cb (ks ! i)"
        "m0 < m" "\<forall>j < i. cb (ks ! j) < m"
        by blast
      have "\<forall>j < i. cb ((ks @ [k]) ! j) < m"
        using i by (simp add: nth_append)
      then have "i < length (ks @ [k]) \<and> t = Some ((ks @ [k]) ! i, cb ((ks @ [k]) ! i)) \<and>
               m = cb ((ks @ [k]) ! i) \<and> m0 < m \<and> (\<forall>j < i. cb ((ks @ [k]) ! j) < m)"
        using i by (simp add: nth_append)
      then show ?thesis by blast
    qed
    ultimately show ?thesis
      by blast
  qed
qed

lemma categoryKeys_all: "c \<in> set categoryKeys"
  by (cases c) (simp_all add: categoryKeys_def)

lemma keyPos_nth: "i < length categoryKeys \<Longrightarrow> keyPos (categoryKeys ! i) = i"
proof -
  assume "i < length categoryKeys"
  then have "i \<in> {0, 1, 2, 3, 4, 5}"
    by (auto simp: categoryKeys_def)
  then show ?thesis
    by (auto simp: keyPos_def categoryKeys_def)
qed

lemma keyPos_less: "keyPos c < length categoryKeys"
  by (cases c) (simp_all add: keyPos_def categoryKeys_def)

lemma nth_keyPos: "categoryKeys ! keyPos c = c"
  by (cases c) (simp_all add: keyPos_def categoryKeys_def)

lemma findTopCategory_cases:
  fixes cb :: "ExpenseCategory \<Rightarrow> number"
  shows "(findTopCategory cb = None \<and> (\<forall>c. cb c \<le> 0)) \<or>
         (\<exists>c. findTopCategory cb = Some (c, cb c) \<and> 0 < cb c \<and> (\<forall>c'. cb c' \<le> cb c) \<and>
              (\<forall>c'. keyPos c' < keyPos c \<longrightarrow> cb c' < cb c))"
proof -
  obtain t m where run: "foldl (topStep cb) (None, 0) categoryKeys = (t, m)"
    and ub: "\<forall>k \<in> set categoryKeys. cb k \<le> m"
    and shape: "(t = None \<and> m = 0) \<or>
            (\<exists>i < length categoryKeys. t = Some (categoryKeys ! i, cb (categoryKeys ! i)) \<and>
               m = cb (categoryKeys ! i) \<and> 0 < m \<and> (\<forall>j < i. cb (categoryKeys ! j) < m))"
    using topScan_invariant [of cb None 0 categoryKeys] by blast
  have top: "findTopCategory cb = t"
    by (simp add: findTopCategory_def run)
  have all: "\<forall>c. cb c \<le> m"
    using ub categoryKeys_all by blast
  from shape show ?thesis
  proof
    assume "t = None \<and> m = 0"
    then show ?thesis using top all by simp
  next
    assume "\<exists>i < length categoryKeys. t = Some (categoryKeys ! i, cb (categoryKeys ! i)) \<and>
               m = cb (categoryKeys ! i) \<and> 0 < m \<and> (\<forall>j < i. cb (categoryKeys ! j) < m)"
    then obtain i where i: "i < length categoryKeys"
      "t = Some (categoryKeys ! i, cb (categoryKeys ! i))" "m = cb (categoryKeys ! i)" "0 < m"
      "\<forall>j < i. cb (categoryKeys ! j) < m"
      by blast
    define c where "c = categoryKeys ! i"
    have pos: "keyPos c = i"
      unfolding c_def using i(1) by (rule keyPos_nth)
    have "\<forall>c'. keyPos c' < keyPos c \<longrightarrow> cb c' < cb c"
    proof (intro allI impI)
      fix c' assume "keyPos c' < keyPos c"
      then have "cb (categoryKeys ! keyPos c') < m"
        using i(5) pos by simp
      then show "cb c' < cb c"
        using i(3) by (simp add: nth_keyPos c_def)
    qed
    then have "findTopCategory cb = Some (c, cb c) \<and> 0 < cb c \<and> (\<forall>c'. cb c' \<le> cb c) \<and>
              (\<forall>c'. keyPos c' < keyPos c \<longrightarrow> cb c' < cb c)"
      using top i all by (simp add: c_def)
    then show ?thesis by blast
  qed
qed

lemma roundToDouble_numeral:
  "(numeral k :: int) \<le> 2 ^ 53 \<Longrightarrow> roundToDouble (numeral k) = numeral k"
  using roundToDouble_of_int [of "numeral k"] by simp

lemma sumAmounts_foldl: "sumAmounts xs = foldl jsAdd 0 (map amount xs)"
  by (simp add: sumAmounts_def foldl_map)

lemma foldl_addToBucket:
  "foldl addToBucket cb xs c = foldl jsAdd (cb c) (amountsOf c xs)"
proof (induction xs arbitrary: cb)
  case Nil
  show ?case by (simp add: amountsOf_def)
next
  case (Cons x xs)
  show ?case
    using Cons [of "addToBucket cb x"]
    by (simp add: amountsOf_def addToBucket_def)
qed

lemma breakdownOf_foldl: "breakdownOf xs c = foldl jsAdd 0 (amountsOf c xs)"
  by (simp add: breakdownOf_def foldl_addToBucket initialBreakdown_def)

lemma exactFrom_foldl: "exactFrom acc xs \<Longrightarrow> foldl jsAdd acc xs = acc + sum_list xs"
  by (induction xs arbitrary: acc) (auto simp: add.assoc)

lemma amounts_partition:
  "sum_list (map amount xs) =
     sum_list (amountsOf Food xs) + sum_list (amountsOf Transportation xs) +
     sum_list (amountsOf Entertainment xs) + sum_list (amountsOf Shopping xs) +
     sum_list (amountsOf Bills xs) + sum_list (amountsOf Other xs)"
proof (induction xs)
  case Nil
  show ?case by (simp add: amountsOf_def)
next
  case (Cons x xs)
  then show ?case
    by (cases "category x") (simp_all add: amountsOf_def)
qed

lemma mock_total: "sumAmounts mockExpenses = 425"
  by (simp add: sumAmounts_def mockExpenses_def mkExpense_def jsAdd_def roundToDouble_numeral)

lemmas evalDouble = roundToDouble_def expDown.simps expUp.simps pow2_def roundHalfEven_def

lemma d01: "roundToDouble (1 / 10) = 3602879701896397 / 36028797018963968"
  by (simp add: evalDouble)

lemma d07: "roundToDouble (7 / 10) = 3152519739159347 / 4503599627370496"
  by (simp add: evalDouble)

lemma d03: "roundToDouble (3 / 10) = 5404319552844595 / 18014398509481984"
  by (simp add: evalDouble)

lemma rounding_total: "sumAmounts roundingExpenses = 4953959590107545 / 4503599627370496"
  by (simp add: sumAmounts_def roundingExpenses_def mkExpense_def d01 d07 d03 jsAdd_def)
     (simp add: evalDouble)

lemma rounding_food: "breakdownOf roundingExpenses Food = 3602879701896397 / 9007199254740992"
  by (simp add: breakdownOf_def roundingExpenses_def mkExpense_def addToBucket_def
      initialBreakdown_def d01 d07 d03 jsAdd_def)
     (simp add: evalDouble)

lemma rounding_transportation:
  "breakdownOf roundingExpenses Transportation = 3152519739159347 / 4503599627370496"
  by (simp add: breakdownOf_def roundingExpenses_def mkExpense_def addToBucket_def
      initialBreakdown_def d01 d07 d03 jsAdd_def)
     (simp add: evalDouble)

lemma rounding_rest:
  "breakdownOf roundingExpenses Entertainment = 0"
  "breakdownOf roundingExpenses Shopping = 0"
  "breakdownOf roundingExpenses Bills = 0"
  "breakdownOf roundingExpenses Other = 0"
  by (simp_all add: breakdownOf_def roundingExpenses_def mkExpense_def addToBucket_def
      initialBreakdown_def)

lemma mock_buckets:
  "breakdownOf mockExpenses Food = 125"
  "breakdownOf mockExpenses Transportation = 100"
  "breakdownOf mockExpenses Entertainment = 0"
  "breakdownOf mockExpenses Shopping = 0"
  "breakdownOf mockExpenses Bills = 200"
  "breakdownOf mockExpenses Other = 0"
  by (simp_all add: breakdownOf_def mockExpenses_def mkExpense_def addToBucket_def
      initialBreakdown_def jsAdd_def roundToDouble_numeral)

lemma mock_top: "findTopCategory (breakdownOf mockExpenses) = Some (Bills, 200)"
  by (simp add: findTopCategory_def categoryKeys_def topStep_def mock_buckets)

lemma rounding_bucket_sum:
  "foldl jsAdd 0 (map (breakdownOf roundingExpenses) categoryKeys)
     = 2476979795053773 / 2251799813685248"
  by (simp add: categoryKeys_def rounding_food rounding_transportation rounding_rest jsAdd_def
      roundToDouble_0)
     (simp add: evalDouble)

lemma pow2_pos: "0 < pow2 e"
  by (simp add: pow2_def)

lemma roundHalfEven_nonneg: "0 \<le> q \<Longrightarrow> 0 \<le> roundHalfEven q"
  by (simp add: roundHalfEven_def Let_def)

lemma roundToDouble_nonneg: "0 \<le> q \<Longrightarrow> 0 \<le> roundToDouble q"
proof -
  assume q: "0 \<le> q"
  have "0 \<le> of_int (roundHalfEven (q / pow2 e)) * pow2 e" for e
  proof -
    have "0 \<le> q / pow2 e"
      using q pow2_pos [of e] by simp
    then have "0 \<le> roundHalfEven (q / pow2 e)"
      by (rule roundHalfEven_nonneg)
    then show ?thesis
      using pow2_pos [of e] by simp
  qed
  then show ?thesis
    by (simp add: roundToDouble_def Let_def)
qed

lemma exactFrom_whole:
  assumes "\<forall>x \<in> set xs. \<exists>n. 0 \<le> n \<and> x = real_of_int n" and "0 \<le> a"
    and "real_of_int a + sum_list xs \<le> 2 ^ 53"
  shows "exactFrom (real_of_int a) xs"
  using assms
proof (induction xs arbitrary: a)
  case Nil
  show ?case by simp
next
  case (Cons x xs)
  then obtain n where n: "0 \<le> n" "x = real_of_int n"
    by auto
  have rest: "0 \<le> sum_list xs"
    using Cons.prems(1) by (intro sum_list_nonneg) auto
  have "real_of_int (a + n) \<le> 2 ^ 53"
    using Cons.prems(3) rest n by simp
  then have "a + n \<le> 2 ^ 53"
    by (metis of_int_le_iff of_int_numeral of_int_power)
  then have "\<bar>a + n\<bar> \<le> 2 ^ 53"
    using n Cons.prems(2) by simp
  then have step: "jsAdd (real_of_int a) x = real_of_int a + x"
    using roundToDouble_of_int [of "a + n"] by (simp add: jsAdd_def n)
  have "exactFrom (real_of_int (a + n)) xs"
    using Cons.prems n by (intro Cons.IH) (auto simp: add.assoc)
  then show ?case
    using step by (simp add: n)
qed

lemma sum_list_filter_le:
  fixes f :: "'a \<Rightarrow> real"
  shows "\<forall>x \<in> set xs. 0 \<le> f x \<Longrightarrow> sum_list (map f (filter P xs)) \<le> sum_list (map f xs)"
  by (induction xs) (auto intro: add_increasing)

section \<open>Properties of the CSV export\<close>

lemma joinWith_Cons: "joinWith sep (x # xs) = x @ concat (map (\<lambda>y. sep @ y) xs)"
  by (induction xs arbitrary: x) simp_all

lemma generateCSV_rows:
  "generateCSV numberToString data =
     ''Date,Category,Amount,Description'' @
       concat (map (\<lambda>expense. newline # modalRow numberToString expense) data)"
  by (simp add: generateCSV_def joinWith_Cons modalRow_def comp_def)

lemma firstLine_header:
  "newline \<notin> set h \<Longrightarrow> firstLine (h @ concat (map (\<lambda>x. newline # f x) xs)) = h"
proof -
  assume h: "newline \<notin> set h"
  have all: "\<forall>c \<in> set h. c \<noteq> newline"
    using h by auto
  show ?thesis
  proof (cases xs)
    case Nil
    then show ?thesis
      using all by (simp add: firstLine_def)
  next
    case (Cons y ys)
    have "takeWhile (\<lambda>c. c \<noteq> newline) (h @ newline # f y @ concat (map (\<lambda>x. newline # f x) ys)) = h"
      using all by (induction h) simp_all
    then show ?thesis
      using Cons by (simp add: firstLine_def)
  qed
qed

lemma exportRows_Some:
  "exportRows formatDate toFixed2 expenses = Some rows \<Longrightarrow>
     rows = map (\<lambda>expense. exportRow toFixed2 expense (the (formatDate (date expense)))) expenses"
  by (induction expenses arbitrary: rows) (auto split: option.splits)

lemma exportRows_None:
  "exportRows formatDate toFixed2 expenses = None \<longleftrightarrow>
     (\<exists>expense \<in> set expenses. formatDate (date expense) = None)"
  by (induction expenses) (auto split: option.splits)

lemma header_modal_no_newline: "newline \<notin> set ''Date,Category,Amount,Description''"
  by (simp add: newline_def)

lemma header_export_no_newline: "newline \<notin> set ''Date,Category,Amount (GBP),Description''"
  by (simp add: newline_def)

lemma exportToCSV_rows:
  assumes "expenses \<noteq> []" and "exportRows formatDate toFixed2 expenses = Some rows"
  shows "exportToCSV formatDate toFixed2 expenses =
     Download (''Date,Category,Amount (GBP),Description'' @ concat (map (\<lambda>row. newline # row) rows))"
  using assms by (simp add: exportToCSV_def joinWith_Cons)

lemma exportRows_length:
  "exportRows formatDate toFixed2 expenses = Some rows \<Longrightarrow> length rows = length expenses"
  by (induction expenses arbitrary: rows) (auto split: option.splits)

lemma groceries_export:
  "exportToCSV sampleFormatDate sampleToFixed2 [groceries] =
     Download (''Date,Category,Amount (GBP),Description'' @ [newline] @
               ''15/01/2025,Food,50.00,'' @ [dquote] @ ''Groceries'' @ [dquote])"
  by (simp add: exportToCSV_def groceries_def mkExpense_def sampleFormatDate_def
      sampleToFixed2_def exportRow_def quoteDescription_def doubleQuotes_def dquote_def)

lemma readQuoted_other:
  "c \<noteq> dquote \<Longrightarrow> cs \<noteq> [] \<Longrightarrow>
     readQuoted (c # cs) = map_option (\<lambda>(field, rest). (c # field, rest)) (readQuoted cs)"
  by (cases cs) simp_all

lemma doubleQuotes_Cons:
  "doubleQuotes (c # d) = (if c = dquote then [dquote, dquote] else [c]) @ doubleQuotes d"
  by (simp add: doubleQuotes_def)

lemma readQuoted_doubleQuotes:
  assumes "rest = [] \<or> hd rest \<noteq> dquote"
  shows "readQuoted (doubleQuotes d @ dquote # rest) = Some (d, rest)"
proof (induction d)
  case Nil
  show ?case
    using assms by (cases rest) (simp_all add: doubleQuotes_def)
next
  case (Cons c d)
  show ?case
  proof (cases "c = dquote")
    case True
    then show ?thesis
      using Cons by (simp add: doubleQuotes_Cons)
  next
    case False
    then show ?thesis
      using Cons by (simp add: doubleQuotes_Cons readQuoted_other)
  qed
qed

lemma rows_after_head:
  "concat (map (\<lambda>x. newline # f x) ys) = [] \<or> hd (concat (map (\<lambda>x. newline # f x) ys)) = newline"
  by (cases ys) simp_all

lemma newline_not_dquote: "newline \<noteq> dquote"
  by (simp add: newline_def dquote_def)

lemma readQuotedField_at:
  assumes "after = [] \<or> hd after = newline"
  shows "readQuotedField (drop (length front) (front @ [dquote] @ doubleQuotes d @ [dquote] @ after))
     = Some (d, after)"
proof -
  have "after = [] \<or> hd after \<noteq> dquote"
    using assms newline_not_dquote by auto
  then show ?thesis
    by (simp add: readQuotedField_def readQuoted_doubleQuotes)
qed

lemma generateCSV_split:
  "generateCSV numberToString (xs @ x # ys) =
     generateCSV numberToString xs @ [newline] @ date x @ '','' @ categoryName (category x) @ '','' @
     numberToString (amount x) @ '','' @ [dquote] @ doubleQuotes (description x) @ [dquote] @
     concat (map (\<lambda>expense. newline # modalRow numberToString expense) ys)"
  by (simp add: generateCSV_rows modalRow_def quoteDescription_def)

lemma exportToCSV_text:
  assumes "data \<noteq> []" and "\<forall>expense \<in> set data. formatDate (date expense) \<noteq> None"
  shows "exportToCSV formatDate toFixed2 data =
     Download (''Date,Category,Amount (GBP),Description'' @
       concat (map (\<lambda>expense. newline #
         exportRow toFixed2 expense (the (formatDate (date expense)))) data))"
proof -
  have "exportRows formatDate toFixed2 data \<noteq> None"
    using assms(2) by (simp add: exportRows_None)
  then obtain rows where rows: "exportRows formatDate toFixed2 data = Some rows"
    by blast
  have "concat (map (\<lambda>row. newline # row) rows) =
      concat (map (\<lambda>expense. newline #
        exportRow toFixed2 expense (the (formatDate (date expense)))) data)"
    by (simp add: exportRows_Some [OF rows] comp_def)
  then show ?thesis
    using exportToCSV_rows [OF assms(1) rows] by simp
qed

lemma export_text_split:
  "h @ concat (map (\<lambda>expense. newline #
         exportRow toFixed2 expense (the (formatDate (date expense)))) (xs @ x # ys)) =
     (h @ concat (map (\<lambda>expense. newline #
         exportRow toFixed2 expense (the (formatDate (date expense)))) xs)) @
     [newline] @ the (formatDate (date x)) @ '','' @ categoryName (category x) @ '','' @
     toFixed2 (amount x) @ '','' @ [dquote] @ doubleQuotes (description x) @ [dquote] @
     concat (map (\<lambda>expense. newline #
         exportRow toFixed2 expense (the (formatDate (date expense)))) ys)"
  by (simp add: exportRow_def quoteDescription_def)

section \<open>Properties of the currency parser\<close>

lemma parseCurrency_nonneg: "0 \<le> parseCurrency s"
  by (auto simp: parseCurrency_def parseFloat_def Let_def roundToDouble_nonneg
      split: option.splits if_splits)

lemma not_isDigit_dot: "\<not> isDigit (CHR ''.'')"
  by (simp add: isDigit_def)

text \<open>The prefix of a string that parseFloat reads.\<close>

lemma isDecimal_shape:
  assumes "isDecimal p"
  shows "(list_all isDigit p \<and> p \<noteq> []) \<or>
         (\<exists>a f. p = a @ CHR ''.'' # f \<and> list_all isDigit a \<and> list_all isDigit f \<and>
                 (a \<noteq> [] \<or> f \<noteq> []))"
proof -
  define a where "a = takeWhile isDigit p"
  define b where "b = dropWhile isDigit p"
  have p: "p = a @ b"
    by (simp add: a_def b_def)
  have a: "list_all isDigit a"
    unfolding a_def list_all_iff by (meson set_takeWhileD)
  have chars: "list_all (\<lambda>c. isDigit c \<or> c = CHR ''.'') p"
    and dots: "count_list p (CHR ''.'') \<le> 1" and digit: "list_ex isDigit p"
    using assms by (simp_all add: isDecimal_def)
  show ?thesis
  proof (cases b)
    case Nil
    then have "p = a" using p by simp
    moreover have "p \<noteq> []" using digit by auto
    ultimately show ?thesis using a by simp
  next
    case (Cons c f)
    have "\<not> isDigit c"
      using Cons b_def by (metis hd_dropWhile list.distinct(1) list.sel(1))
    moreover have "isDigit c \<or> c = CHR ''.''"
      using chars p Cons by (simp add: list_all_iff)
    ultimately have c: "c = CHR ''.''" by simp
    have "count_list f (CHR ''.'') = 0"
      using dots p Cons c by simp
    then have nodot: "CHR ''.'' \<notin> set f"
      by (simp add: count_list_0_iff)
    have "list_all (\<lambda>c. isDigit c \<or> c = CHR ''.'') f"
      using chars p Cons by simp
    then have f: "list_all isDigit f"
      using nodot by (auto simp: list_all_iff)
    have "a \<noteq> [] \<or> f \<noteq> []"
      using digit p Cons c not_isDigit_dot by (auto simp: list_ex_iff)
    then show ?thesis
      using p Cons c a f by blast
  qed
qed

lemma takeWhile_digits_append:
  "list_all isDigit a \<Longrightarrow> takeWhile isDigit (a @ xs) = a @ takeWhile isDigit xs"
  by (induction a) simp_all

lemma dropWhile_digits_append:
  "list_all isDigit a \<Longrightarrow> dropWhile isDigit (a @ xs) = dropWhile isDigit xs"
  by (induction a) simp_all

lemma decimalValue_digits:
  "list_all isDigit a \<Longrightarrow> decimalValue a = of_nat (digitsToNat a)"
proof -
  assume a: "list_all isDigit a"
  then have "CHR ''.'' \<notin> set a"
    using not_isDigit_dot by (auto simp: list_all_iff)
  moreover have "filter isDigit a = a"
    using a by (simp add: list_all_iff)
  ultimately show ?thesis
    by (simp add: decimalValue_def)
qed

lemma decimalValue_point:
  assumes "list_all isDigit a" and "list_all isDigit f"
  shows "decimalValue (a @ CHR ''.'' # f) = of_nat (digitsToNat (a @ f)) / 10 ^ length f"
proof -
  have "filter isDigit (a @ CHR ''.'' # f) = a @ f"
    using assms not_isDigit_dot by (simp add: list_all_iff)
  moreover have "takeWhile isDigit (rev (a @ CHR ''.'' # f)) = rev f"
    using assms(2) not_isDigit_dot
    by (simp add: takeWhile_digits_append list_all_iff)
  ultimately show ?thesis
    by (simp add: decimalValue_def)
qed

lemma digits_takeWhile: "list_all isDigit (takeWhile isDigit s)"
  unfolding list_all_iff by (meson set_takeWhileD)

lemma digits_no_dot: "list_all isDigit a \<Longrightarrow> count_list a (CHR ''.'') = 0"
  using not_isDigit_dot by (auto simp: list_all_iff count_list_0_iff)

lemma isDecimal_digits: "list_all isDigit a \<Longrightarrow> isDecimal a = (a \<noteq> [])"
proof -
  assume a: "list_all isDigit a"
  have "list_ex isDigit a = (a \<noteq> [])"
    using a by (cases a) (auto simp: list_all_iff list_ex_iff)
  then show ?thesis
    using a digits_no_dot [OF a] by (auto simp: isDecimal_def list_all_iff)
qed

lemma isDecimal_point:
  assumes "list_all isDigit a" and "list_all isDigit f"
  shows "isDecimal (a @ CHR ''.'' # f) = (a \<noteq> [] \<or> f \<noteq> [])"
proof -
  have "list_ex isDigit (a @ CHR ''.'' # f) = (a \<noteq> [] \<or> f \<noteq> [])"
    using assms not_isDigit_dot
    by (cases a; cases f) (auto simp: list_all_iff list_ex_iff)
  then show ?thesis
    using assms digits_no_dot [OF assms(1)] digits_no_dot [OF assms(2)]
    by (auto simp: isDecimal_def list_all_iff)
qed

lemma prefix_numericPrefix: "prefix (numericPrefix s) s"
proof (cases "dropWhile isDigit s")
  case Nil
  show ?thesis
    by (simp add: numericPrefix_def Nil takeWhile_is_prefix)
next
  case (Cons c cs)
  have s: "s = takeWhile isDigit s @ c # cs"
    using Cons by (metis takeWhile_dropWhile_id)
  have "prefix (takeWhile isDigit s @ c # takeWhile isDigit cs) (takeWhile isDigit s @ c # cs)"
    by (simp add: takeWhile_is_prefix)
  then have "prefix (takeWhile isDigit s @ c # takeWhile isDigit cs) s"
    using s by simp
  then show ?thesis
    by (auto simp: numericPrefix_def Cons takeWhile_is_prefix)
qed

lemma parseFloat_numericPrefix:
  "parseFloat s =
     (if isDecimal (numericPrefix s) then Some (roundToDouble (decimalValue (numericPrefix s)))
      else None)"
proof (cases "dropWhile isDigit s")
  case Nil
  show ?thesis
    using digits_takeWhile [of s]
    by (simp add: parseFloat_def numericPrefix_def Nil isDecimal_digits decimalValue_digits Let_def)
next
  case (Cons c cs)
  show ?thesis
  proof (cases "c = CHR ''.''")
    case True
    then show ?thesis
      using digits_takeWhile [of s] digits_takeWhile [of cs]
      by (simp add: parseFloat_def numericPrefix_def Cons isDecimal_point decimalValue_point Let_def)
  next
    case False
    then show ?thesis
      using digits_takeWhile [of s]
      by (simp add: parseFloat_def numericPrefix_def Cons isDecimal_digits decimalValue_digits Let_def)
  qed
qed

lemma numericPrefix_longest:
  assumes "prefix p s" and "isDecimal p"
  shows "isDecimal (numericPrefix s) \<and> length p \<le> length (numericPrefix s)"
proof -
  obtain r where s: "s = p @ r"
    using assms(1) by (auto simp: prefix_def)
  from isDecimal_shape [OF assms(2)] show ?thesis
  proof
    assume p: "list_all isDigit p \<and> p \<noteq> []"
    then have ip: "takeWhile isDigit s = p @ takeWhile isDigit r"
      and rest: "dropWhile isDigit s = dropWhile isDigit r"
      by (simp_all add: s takeWhile_digits_append dropWhile_digits_append)
    have d: "list_all isDigit (p @ takeWhile isDigit r)"
      using p digits_takeWhile [of r] by simp
    show ?thesis
    proof (cases "dropWhile isDigit r")
      case Nil
      show ?thesis
        using p d by (simp add: numericPrefix_def ip rest Nil isDecimal_digits)
    next
      case (Cons c cs)
      have "isDecimal ((p @ takeWhile isDigit r) @ CHR ''.'' # takeWhile isDigit cs)"
        using p isDecimal_point [OF d digits_takeWhile [of cs]] by simp
      then show ?thesis
        using p d by (auto simp: numericPrefix_def ip rest Cons isDecimal_digits)
    qed
  next
    assume "\<exists>a f. p = a @ CHR ''.'' # f \<and> list_all isDigit a \<and> list_all isDigit f \<and>
                 (a \<noteq> [] \<or> f \<noteq> [])"
    then obtain a f where p: "p = a @ CHR ''.'' # f" and a: "list_all isDigit a"
      and f: "list_all isDigit f" and ne: "a \<noteq> [] \<or> f \<noteq> []"
      by blast
    have ip: "takeWhile isDigit s = a"
      and rest: "dropWhile isDigit s = CHR ''.'' # f @ r"
      using a not_isDigit_dot
      by (simp_all add: s p takeWhile_digits_append dropWhile_digits_append)
    have np: "numericPrefix s = a @ CHR ''.'' # f @ takeWhile isDigit r"
      using f by (simp add: numericPrefix_def ip rest takeWhile_digits_append)
    have "list_all isDigit (f @ takeWhile isDigit r)"
      using f digits_takeWhile [of r] by simp
    then have "isDecimal (numericPrefix s)"
      using a ne by (auto simp: np isDecimal_point)
    then show ?thesis
      by (simp add: np p)
  qed
qed

lemma parseCurrency_prefix_value:
  assumes "prefix p (cleaned s)" and "isDecimal p"
    and "\<forall>p'. prefix p' (cleaned s) \<and> isDecimal p' \<longrightarrow> length p' \<le> length p"
  shows "parseCurrency s = roundToDouble (decimalValue p)"
proof -
  have np: "isDecimal (numericPrefix (cleaned s))" "length p \<le> length (numericPrefix (cleaned s))"
    using numericPrefix_longest [OF assms(1,2)] by simp_all
  then have "length (numericPrefix (cleaned s)) \<le> length p"
    using assms(3) prefix_numericPrefix by blast
  then have "length p = length (numericPrefix (cleaned s))"
    using np(2) by simp
  then have "p = numericPrefix (cleaned s)"
    using assms(1) prefix_numericPrefix [of "cleaned s"]
    by (metis prefix_length_prefix order_refl prefix_order.antisym)
  then show ?thesis
    using np(1) by (simp add: parseCurrency_def parseFloat_numericPrefix)
qed

lemma parseCurrency_no_prefix:
  assumes "\<forall>p. prefix p (cleaned s) \<longrightarrow> \<not> isDecimal p"
  shows "parseCurrency s = 0"
proof -
  have "\<not> isDecimal (numericPrefix (cleaned s))"
    using assms prefix_numericPrefix by blast
  then show ?thesis
    by (simp add: parseCurrency_def parseFloat_numericPrefix)
qed

lemmas evalParse = parseCurrency_def parseFloat_def cleaned_def isDigit_def digitsToNat_def
  digitValue_def pound_def

lemma parseCurrency_examples:
  "parseCurrency '''' = 0" "parseCurrency ''abc'' = 0" "parseCurrency ''.'' = 0"
  "parseCurrency ''..'' = 0"
  by (simp_all add: evalParse)

lemma cleaned_pounds: "cleaned (pound @ ''1,234.56'') = ''1234.56''"
  by (simp add: cleaned_def pound_def isDigit_def)

lemma parseFloat_pounds: "parseFloat ''1234.56'' = Some (roundToDouble 1234.56)"
  by (simp add: parseFloat_def isDigit_def digitsToNat_def digitValue_def)

lemma parseCurrency_pounds: "parseCurrency (pound @ ''1,234.56'') = roundToDouble 1234.56"
  by (simp add: parseCurrency_def cleaned_pounds parseFloat_pounds)

lemma cleaned_minus: "cleaned (pound @ ''-50.00'') = ''50.00''"
  by (simp add: cleaned_def pound_def isDigit_def)

lemma parseFloat_fifty: "parseFloat ''50.00'' = Some 50"
  by (simp add: parseFloat_def isDigit_def digitsToNat_def digitValue_def roundToDouble_numeral)

lemma parseCurrency_minus: "parseCurrency (pound @ ''-50.00'') = 50"
  by (simp add: parseCurrency_def cleaned_minus parseFloat_fifty)

lemma cleaned_dotted: "cleaned ''1.2.3'' = ''1.2.3''"
  by (simp add: cleaned_def isDigit_def)

lemma parseFloat_dotted: "parseFloat ''1.2.3'' = Some (roundToDouble (6 / 5))"
  by (simp add: parseFloat_def isDigit_def digitsToNat_def digitValue_def)

lemma double_1_2: "roundToDouble (6 / 5) = 5404319552844595 / 4503599627370496"
  by (simp add: evalDouble)

lemma parseCurrency_dotted: "parseCurrency ''1.2.3'' = 5404319552844595 / 4503599627370496"
  by (simp add: parseCurrency_def cleaned_dotted parseFloat_dotted double_1_2)

lemma not_isDecimal_dotted: "\<not> isDecimal ''1.2.3''"
  by (simp add: isDecimal_def)

lemma parseFloat_samples:
  "parseFloat ''abc'' = None" "parseFloat ''0'' = Some 0" "parseFloat ''1000001'' = Some 1000001"
  "parseFloat ''1000000'' = Some 1000000"
  by (simp_all add: parseFloat_def isDigit_def digitsToNat_def digitValue_def roundToDouble_numeral
      roundToDouble_0)

section \<open>Properties of the storage\<close>

lemma findIndex_Some:
  "findIndex p xs = Some k \<longleftrightarrow> k < length xs \<and> p (xs ! k) \<and> (\<forall>j < k. \<not> p (xs ! j))"
proof (induction xs arbitrary: k)
  case Nil
  show ?case by simp
next
  case (Cons x xs)
  show ?case
  proof (cases "p x")
    case True
    then show ?thesis
      by (cases k) auto
  next
    case False
    show ?thesis
    proof (cases k)
      case 0
      then show ?thesis using False by simp
    next
      case (Suc m)
      have "(\<forall>j < Suc m. \<not> p ((x # xs) ! j)) = (\<forall>j < m. \<not> p (xs ! j))"
        using False by (auto simp: less_Suc_eq_0_disj)
      then show ?thesis
        using False Suc Cons [of m] by auto
    qed
  qed
qed

lemma findIndex_present:
  "\<exists>x \<in> set xs. p x \<Longrightarrow> \<exists>k. findIndex p xs = Some k"
  by (induction xs) auto

lemma mergeUpdates_keeps:
  "id' (mergeUpdates expense updates now) = id' expense"
  "createdAt (mergeUpdates expense updates now) = createdAt expense"
  "updatedAt (mergeUpdates expense updates now) = now"
  "newDate updates = None \<Longrightarrow> date (mergeUpdates expense updates now) = date expense"
  "newAmount updates = None \<Longrightarrow> amount (mergeUpdates expense updates now) = amount expense"
  "newCategory updates = None \<Longrightarrow> category (mergeUpdates expense updates now) = category expense"
  "newDescription updates = None \<Longrightarrow>
     description (mergeUpdates expense updates now) = description expense"
  by (simp_all add: mergeUpdates_def)

lemma present_first_index:
  assumes "\<exists>expense \<in> set xs. id' expense = i"
  shows "\<exists>k < length xs. id' (xs ! k) = i \<and> (\<forall>j < k. id' (xs ! j) \<noteq> i)"
proof -
  obtain k where "findIndex (\<lambda>exp. id' exp = i) xs = Some k"
    using findIndex_present [OF assms] by blast
  then show ?thesis
    by (auto simp: findIndex_Some)
qed

lemma mock_ids:
  "id' (mockExpenses ! 0) = ''1''" "id' (mockExpenses ! 1) = ''2''"
  "id' (mockExpenses ! Suc 0) = ''2''"
  "id' (mockExpenses ! 2) = ''3''" "id' (mockExpenses ! 3) = ''4''"
  "length mockExpenses = 4"
  by (simp_all add: mockExpenses_def mkExpense_def)

lemma sample_dates:
  "parseDate sampleClock ''2025-01-15'' = Some 1736899200000"
  "parseDate sampleClock ''2020-01-01'' = Some 1577836800000"
  by (simp_all add: sampleClock_def)

section \<open>Properties of the rounded sums\<close>

lemma roundHalfEven_error: "\<bar>of_int (roundHalfEven x) - x\<bar> \<le> 1 / 2"
proof -
  have "of_int \<lfloor>x\<rfloor> \<le> x" "x < of_int \<lfloor>x\<rfloor> + 1"
    by linarith+
  then show ?thesis
    by (auto simp: roundHalfEven_def Let_def)
qed

lemma pow2_Suc: "pow2 (e + 1) = 2 * pow2 e"
proof -
  consider "0 \<le> e" | "e = - 1" | "e < - 1" by linarith
  then show ?thesis
  proof cases
    case 1
    then show ?thesis by (simp add: pow2_def nat_add_distrib)
  next
    case 2
    then show ?thesis by (simp add: pow2_def)
  next
    case 3
    then have "nat (- e) = Suc (nat (- e - 1))" by simp
    then show ?thesis using 3 by (simp add: pow2_def)
  qed
qed

lemma pow2_pred: "pow2 (e - 1) = pow2 e / 2"
  using pow2_Suc [of "e - 1"] by simp

lemma expUp_bound: "2 ^ 52 \<le> a \<Longrightarrow> pow2 (expUp a e) * 2 ^ 52 \<le> a * pow2 e"
proof (induction a e rule: expUp.induct)
  case (1 a e)
  show ?case
  proof (cases "2 ^ 53 \<le> a")
    case True
    then have "pow2 (expUp (a / 2) (e + 1)) * 2 ^ 52 \<le> a / 2 * pow2 (e + 1)"
      using 1 by simp
    moreover have "expUp a e = expUp (a / 2) (e + 1)"
      using True by (subst expUp.simps) simp
    ultimately show ?thesis
      by (simp add: pow2_Suc)
  next
    case False
    then have "expUp a e = e"
      by (subst expUp.simps) simp
    then show ?thesis
      using 1(2) pow2_pos [of e] by simp
  qed
qed

lemma expDown_bound:
  "- 1074 \<le> e \<Longrightarrow> pow2 (expDown a e) * 2 ^ 52 \<le> a * pow2 e \<or> expDown a e = - 1074"
proof (induction a e rule: expDown.induct)
  case (1 a e)
  show ?case
  proof (cases "a < 2 ^ 52 \<and> - 1074 < e")
    case True
    then have "pow2 (expDown (a * 2) (e - 1)) * 2 ^ 52 \<le> a * 2 * pow2 (e - 1) \<or>
        expDown (a * 2) (e - 1) = - 1074"
      using 1 by simp
    moreover have "expDown a e = expDown (a * 2) (e - 1)"
      using True by (subst expDown.simps) simp
    ultimately show ?thesis
      by (simp add: pow2_pred)
  next
    case False
    then have stop: "expDown a e = e"
      by (subst expDown.simps) auto
    show ?thesis
    proof (cases "2 ^ 52 \<le> a")
      case True
      then show ?thesis
        using stop pow2_pos [of e] by simp
    next
      case no: False
      then have "e = - 1074"
        using False 1(2) by simp
      then show ?thesis
        using stop by simp
    qed
  qed
qed

lemma roundToDouble_error: "\<bar>roundToDouble q - q\<bar> \<le> \<bar>q\<bar> / 2 ^ 53 + 1 / 2 ^ 1075"
proof (cases "q = 0")
  case True
  then show ?thesis by (simp add: roundToDouble_def)
next
  case False
  define e where "e = (if 2 ^ 53 \<le> \<bar>q\<bar> then expUp \<bar>q\<bar> 0 else expDown \<bar>q\<bar> 0)"
  define p where "p = pow2 e"
  have p: "0 < p"
    unfolding p_def by (rule pow2_pos)
  have r: "roundToDouble q = of_int (roundHalfEven (q / p)) * p"
    using False by (simp add: roundToDouble_def e_def p_def Let_def)
  have "\<bar>of_int (roundHalfEven (q / p)) * p - q\<bar> = \<bar>of_int (roundHalfEven (q / p)) - q / p\<bar> * p"
  proof -
    have "of_int (roundHalfEven (q / p)) * p - q = (of_int (roundHalfEven (q / p)) - q / p) * p"
      using p by (simp add: field_simps)
    then show ?thesis
      using p by (simp add: abs_mult)
  qed
  also have "\<dots> \<le> 1 / 2 * p"
    using roundHalfEven_error [of "q / p"] p by (intro mult_right_mono) simp_all
  finally have half: "\<bar>roundToDouble q - q\<bar> \<le> p / 2"
    using r by simp
  have "p * 2 ^ 52 \<le> \<bar>q\<bar> \<or> p = 1 / 2 ^ 1074"
  proof (cases "2 ^ 53 \<le> \<bar>q\<bar>")
    case True
    then have "pow2 (expUp \<bar>q\<bar> 0) * 2 ^ 52 \<le> \<bar>q\<bar> * pow2 0"
      by (intro expUp_bound) simp
    then show ?thesis
      using True by (simp add: p_def e_def pow2_def)
  next
    case no: False
    have "pow2 (expDown \<bar>q\<bar> 0) * 2 ^ 52 \<le> \<bar>q\<bar> * pow2 0 \<or> expDown \<bar>q\<bar> 0 = - 1074"
      by (intro expDown_bound) simp
    then show ?thesis
      using no by (auto simp: p_def e_def pow2_def)
  qed
  then show ?thesis
  proof
    assume "p * 2 ^ 52 \<le> \<bar>q\<bar>"
    then have "p / 2 \<le> \<bar>q\<bar> / 2 ^ 53"
      by simp
    then have "\<bar>roundToDouble q - q\<bar> \<le> \<bar>q\<bar> / 2 ^ 53"
      using half by (rule order_trans [rotated])
    moreover have "(0::real) \<le> 1 / 2 ^ 1075"
      by (rule divide_nonneg_nonneg) simp_all
    ultimately show ?thesis
      by (rule add_increasing2 [rotated])
  next
    assume "p = 1 / 2 ^ 1074"
    then have "p / 2 = 1 / 2 ^ 1075"
      by simp
    then have "\<bar>roundToDouble q - q\<bar> \<le> 1 / 2 ^ 1075"
      using half by (simp only:)
    moreover have "0 \<le> \<bar>q\<bar> / 2 ^ 53"
      by simp
    ultimately show ?thesis
      by (rule add_increasing [rotated])
  qed
qed

lemma unitRoundoff_nonneg: "0 \<le> unitRoundoff"
  by (simp add: unitRoundoff_def)

lemma smallestNormal_nonneg: "0 \<le> smallestNormal"
  by (simp add: smallestNormal_def)

lemma growth_nonneg: "0 \<le> growth n"
  using unitRoundoff_nonneg by (simp add: growth_def)

lemma growth_mono: "m \<le> n \<Longrightarrow> growth m \<le> growth n"
  using unitRoundoff_nonneg by (simp add: growth_def power_increasing)

lemma growth_add: "growth (m + n) = growth m + growth n + growth m * growth n"
  by (simp add: growth_def power_add algebra_simps)

lemma jsAdd_error: "\<bar>jsAdd a x - (a + x)\<bar> \<le> unitRoundoff * (\<bar>a + x\<bar> + smallestNormal)"
proof -
  have "(1::real) / 2 ^ 1075 = 1 / 2 ^ 53 * (1 / 2 ^ 1022)"
    by (simp add: power_add [symmetric])
  then have "\<bar>a + x\<bar> / 2 ^ 53 + 1 / 2 ^ 1075 = unitRoundoff * (\<bar>a + x\<bar> + smallestNormal)"
    by (simp only: unitRoundoff_def smallestNormal_def) (simp add: algebra_simps)
  then show ?thesis
    using roundToDouble_error [of "a + x"] by (simp only: jsAdd_def)
qed

lemma foldl_jsAdd_error:
  "\<bar>foldl jsAdd acc xs - (acc' + sum_list xs)\<bar> \<le>
     (1 + unitRoundoff) ^ length xs * \<bar>acc - acc'\<bar> +
     growth (length xs) * (\<bar>acc'\<bar> + sum_list (map abs xs) + smallestNormal)"
proof (induction xs arbitrary: acc acc')
  case Nil
  show ?case by (simp add: growth_def)
next
  case (Cons x xs)
  define u where "u = unitRoundoff"
  define c where "c = smallestNormal"
  define G where "G = (1 + u) ^ length xs"
  define E where "E = \<bar>acc - acc'\<bar>"
  define M where "M = \<bar>acc'\<bar> + \<bar>x\<bar> + sum_list (map abs xs)"
  define E1 where "E1 = \<bar>jsAdd acc x - (acc' + x)\<bar>"
  define M1 where "M1 = \<bar>acc' + x\<bar> + sum_list (map abs xs)"
  have u: "0 \<le> u" and c: "0 \<le> c"
    by (simp_all add: u_def c_def unitRoundoff_nonneg smallestNormal_nonneg)
  have G: "1 \<le> G"
    unfolding G_def using u by (intro one_le_power) simp
  have rest: "0 \<le> sum_list (map abs xs)"
    by (intro sum_list_nonneg) auto
  have M1: "M1 \<le> M" "\<bar>acc' + x\<bar> \<le> M"
    using rest by (simp_all add: M1_def M_def)
  have M: "0 \<le> M"
    using rest by (simp add: M_def)
  have "\<bar>jsAdd acc x - (acc + x)\<bar> \<le> u * (\<bar>acc + x\<bar> + c)"
    unfolding u_def c_def by (rule jsAdd_error)
  also have "\<dots> \<le> u * (\<bar>acc' + x\<bar> + E + c)"
    using u by (intro mult_left_mono) (simp_all add: E_def)
  also have "\<dots> \<le> u * (M + E + c)"
    using u M1(2) by (intro mult_left_mono) simp_all
  finally have step: "\<bar>jsAdd acc x - (acc + x)\<bar> \<le> u * (M + E + c)" .
  have "E1 \<le> \<bar>jsAdd acc x - (acc + x)\<bar> + E"
    by (simp add: E1_def E_def)
  then have E1: "E1 \<le> (1 + u) * E + u * (M + c)"
    using step by (simp add: algebra_simps)
  have ih: "\<bar>foldl jsAdd (jsAdd acc x) xs - (acc' + x + sum_list xs)\<bar> \<le> G * E1 + (G - 1) * (M1 + c)"
    using Cons [of "jsAdd acc x" "acc' + x"]
    by (simp add: G_def u_def c_def E1_def M1_def growth_def)
  have "G * E1 \<le> G * ((1 + u) * E + u * (M + c))"
    using E1 G by (intro mult_left_mono) simp_all
  moreover have "(G - 1) * (M1 + c) \<le> (G - 1) * (M + c)"
    using M1(1) G by (intro mult_left_mono) simp_all
  ultimately have "G * E1 + (G - 1) * (M1 + c) \<le>
      G * ((1 + u) * E + u * (M + c)) + (G - 1) * (M + c)"
    by simp
  also have "\<dots> = (1 + u) * G * E + ((1 + u) * G - 1) * (M + c)"
    by (simp add: algebra_simps)
  finally have "\<bar>foldl jsAdd (jsAdd acc x) xs - (acc' + x + sum_list xs)\<bar> \<le>
      (1 + u) * G * E + ((1 + u) * G - 1) * (M + c)"
    using ih by simp
  then show ?case
    by (simp add: G_def u_def c_def E_def M_def growth_def add.assoc)
qed

lemma fold_sum_error:
  "\<bar>foldl jsAdd 0 xs - sum_list xs\<bar> \<le>
     growth (length xs) * (sum_list (map abs xs) + smallestNormal)"
  using foldl_jsAdd_error [of 0 xs 0] by simp

lemma abs_amounts_partition:
  "sum_list (map (\<lambda>expense. \<bar>amount expense\<bar>) xs) =
     sum_list (map abs (amountsOf Food xs)) + sum_list (map abs (amountsOf Transportation xs)) +
     sum_list (map abs (amountsOf Entertainment xs)) + sum_list (map abs (amountsOf Shopping xs)) +
     sum_list (map abs (amountsOf Bills xs)) + sum_list (map abs (amountsOf Other xs))"
proof (induction xs)
  case Nil
  show ?case by (simp add: amountsOf_def)
next
  case (Cons x xs)
  then show ?case
    by (cases "category x") (simp_all add: amountsOf_def)
qed

lemma total_error:
  "\<bar>sumAmounts xs - sum_list (map amount xs)\<bar> \<le>
     growth (length xs) * (sum_list (map (\<lambda>expense. \<bar>amount expense\<bar>) xs) + smallestNormal)"
  using fold_sum_error [of "map amount xs"] by (simp add: sumAmounts_foldl comp_def)

lemma bucket_error:
  "\<bar>breakdownOf xs c - sum_list (amountsOf c xs)\<bar> \<le>
     growth (length xs) * (sum_list (map abs (amountsOf c xs)) + smallestNormal)"
proof -
  have "length (amountsOf c xs) \<le> length xs"
    by (simp add: amountsOf_def)
  then have "growth (length (amountsOf c xs)) \<le> growth (length xs)"
    by (rule growth_mono)
  moreover have "0 \<le> sum_list (map abs (amountsOf c xs)) + smallestNormal"
    using smallestNormal_nonneg by (intro add_nonneg_nonneg sum_list_nonneg) auto
  ultimately have "growth (length (amountsOf c xs)) * (sum_list (map abs (amountsOf c xs)) + smallestNormal)
      \<le> growth (length xs) * (sum_list (map abs (amountsOf c xs)) + smallestNormal)"
    by (rule mult_right_mono)
  then show ?thesis
    using fold_sum_error [of "amountsOf c xs"] by (simp add: breakdownOf_foldl)
qed

lemma bucket_size:
  "\<bar>breakdownOf xs c\<bar> \<le> sum_list (map abs (amountsOf c xs)) +
     growth (length xs) * (sum_list (map abs (amountsOf c xs)) + smallestNormal)"
proof -
  have "\<bar>sum_list (amountsOf c xs)\<bar> \<le> sum_list (map abs (amountsOf c xs))"
    by (rule sum_list_abs)
  then show ?thesis
    using bucket_error [of xs c] abs_triangle_ineq [of "breakdownOf xs c - sum_list (amountsOf c xs)" "sum_list (amountsOf c xs)"]
    by simp
qed

lemma exact_bucket_sum_error:
  "\<bar>breakdownOf xs Food + breakdownOf xs Transportation + breakdownOf xs Entertainment +
     breakdownOf xs Shopping + breakdownOf xs Bills + breakdownOf xs Other - sumAmounts xs\<bar>
   \<le> roundingBound (length xs) (sum_list (map (\<lambda>expense. \<bar>amount expense\<bar>) xs))"
proof -
  define g where "g = growth (length xs)"
  define c where "c = smallestNormal"
  note b = bucket_error [of xs Food] bucket_error [of xs Transportation]
    bucket_error [of xs Entertainment] bucket_error [of xs Shopping] bucket_error [of xs Bills]
    bucket_error [of xs Other]
  have "\<bar>breakdownOf xs Food + breakdownOf xs Transportation + breakdownOf xs Entertainment +
     breakdownOf xs Shopping + breakdownOf xs Bills + breakdownOf xs Other - sumAmounts xs\<bar>
    \<le> g * (sum_list (map abs (amountsOf Food xs)) + c) +
       g * (sum_list (map abs (amountsOf Transportation xs)) + c) +
       g * (sum_list (map abs (amountsOf Entertainment xs)) + c) +
       g * (sum_list (map abs (amountsOf Shopping xs)) + c) +
       g * (sum_list (map abs (amountsOf Bills xs)) + c) +
       g * (sum_list (map abs (amountsOf Other xs)) + c) +
       g * (sum_list (map (\<lambda>expense. \<bar>amount expense\<bar>) xs) + c)"
    using b total_error [of xs] amounts_partition [of xs] unfolding g_def c_def abs_le_iff
    by linarith
  also have "\<dots> = g * (2 * sum_list (map (\<lambda>expense. \<bar>amount expense\<bar>) xs) + 7 * c)"
    by (simp add: abs_amounts_partition [of xs] algebra_simps)
  finally show ?thesis
    by (simp add: roundingBound_def g_def c_def)
qed

lemma program_bucket_sum_error:
  "\<bar>foldl jsAdd 0 (map (breakdownOf xs) categoryKeys) - sumAmounts xs\<bar>
   \<le> roundingBound (length xs + 6) (sum_list (map (\<lambda>expense. \<bar>amount expense\<bar>) xs))"
proof -
  define g where "g = growth (length xs)"
  define h where "h = growth 6"
  define c where "c = smallestNormal"
  define A where "A = sum_list (map (\<lambda>expense. \<bar>amount expense\<bar>) xs)"
  define S where "S = breakdownOf xs Food + breakdownOf xs Transportation +
     breakdownOf xs Entertainment + breakdownOf xs Shopping + breakdownOf xs Bills +
     breakdownOf xs Other"
  define N where "N = \<bar>breakdownOf xs Food\<bar> + \<bar>breakdownOf xs Transportation\<bar> +
     \<bar>breakdownOf xs Entertainment\<bar> + \<bar>breakdownOf xs Shopping\<bar> + \<bar>breakdownOf xs Bills\<bar> +
     \<bar>breakdownOf xs Other\<bar>"
  have g: "0 \<le> g" and h: "0 \<le> h" and c: "0 \<le> c"
    by (simp_all add: g_def h_def c_def growth_nonneg smallestNormal_nonneg)
  have A: "0 \<le> A"
    unfolding A_def by (intro sum_list_nonneg) auto
  have "\<bar>foldl jsAdd 0 (map (breakdownOf xs) categoryKeys)
      - sum_list (map (breakdownOf xs) categoryKeys)\<bar>
      \<le> growth (length (map (breakdownOf xs) categoryKeys)) *
          (sum_list (map abs (map (breakdownOf xs) categoryKeys)) + smallestNormal)"
    by (rule fold_sum_error)
  moreover have "length (map (breakdownOf xs) categoryKeys) = 6"
    by (simp add: categoryKeys_def)
  moreover have "sum_list (map (breakdownOf xs) categoryKeys) = S"
    by (simp add: categoryKeys_def S_def)
  moreover have "sum_list (map abs (map (breakdownOf xs) categoryKeys)) = N"
    by (simp add: categoryKeys_def N_def)
  ultimately have prog: "\<bar>foldl jsAdd 0 (map (breakdownOf xs) categoryKeys) - S\<bar> \<le> h * (N + c)"
    by (simp only: h_def c_def)
  note s = bucket_size [of xs Food] bucket_size [of xs Transportation]
    bucket_size [of xs Entertainment] bucket_size [of xs Shopping] bucket_size [of xs Bills]
    bucket_size [of xs Other]
  have "N \<le> (sum_list (map abs (amountsOf Food xs)) +
        g * (sum_list (map abs (amountsOf Food xs)) + c)) +
       (sum_list (map abs (amountsOf Transportation xs)) +
        g * (sum_list (map abs (amountsOf Transportation xs)) + c)) +
       (sum_list (map abs (amountsOf Entertainment xs)) +
        g * (sum_list (map abs (amountsOf Entertainment xs)) + c)) +
       (sum_list (map abs (amountsOf Shopping xs)) +
        g * (sum_list (map abs (amountsOf Shopping xs)) + c)) +
       (sum_list (map abs (amountsOf Bills xs)) +
        g * (sum_list (map abs (amountsOf Bills xs)) + c)) +
       (sum_list (map abs (amountsOf Other xs)) +
        g * (sum_list (map abs (amountsOf Other xs)) + c))"
    unfolding N_def g_def c_def by (intro add_mono s)
  also have "\<dots> = A + g * (A + 6 * c)"
    by (simp add: A_def abs_amounts_partition [of xs] algebra_simps)
  finally have N: "N \<le> A + g * (A + 6 * c)" .
  have exact: "\<bar>S - sumAmounts xs\<bar> \<le> g * (2 * A + 7 * c)"
    using exact_bucket_sum_error [of xs]
    by (simp add: S_def roundingBound_def g_def c_def A_def)
  define K where "K = 2 * A + 7 * c"
  have K: "A + c \<le> K" "A + 6 * c \<le> K" "0 \<le> K"
    using A c by (simp_all add: K_def)
  have "g * (A + 6 * c) \<le> g * K"
    using K(2) g by (rule mult_left_mono)
  then have "N + c \<le> K + g * K"
    using N K(1) by linarith
  then have "h * (N + c) \<le> h * (K + g * K)"
    using h by (rule mult_left_mono)
  then have "\<bar>foldl jsAdd 0 (map (breakdownOf xs) categoryKeys) - sumAmounts xs\<bar>
      \<le> h * (K + g * K) + g * K"
    using prog exact unfolding K_def abs_le_iff by linarith
  also have "\<dots> = (g + h + g * h) * K"
    by (simp add: algebra_simps)
  also have "\<dots> = growth (length xs + 6) * K"
    by (simp add: growth_add g_def h_def)
  finally show ?thesis
    by (simp add: roundingBound_def K_def A_def c_def)
qed

lemma noRounding_sums:
  assumes "noRounding xs"
  shows "breakdownOf xs Food + breakdownOf xs Transportation + breakdownOf xs Entertainment +
     breakdownOf xs Shopping + breakdownOf xs Bills + breakdownOf xs Other = sumAmounts xs"
    and "foldl jsAdd 0 (map (breakdownOf xs) categoryKeys) = sumAmounts xs"
proof -
  have total: "sumAmounts xs = sum_list (map amount xs)"
    using assms by (simp add: noRounding_def sumAmounts_foldl exactFrom_foldl)
  have bucket: "breakdownOf xs c = sum_list (amountsOf c xs)" for c
  proof -
    have "exactFrom 0 (amountsOf c xs)"
      using assms categoryKeys_all [of c] by (simp add: noRounding_def list_all_iff)
    then show ?thesis
      by (simp add: breakdownOf_foldl exactFrom_foldl)
  qed
  show exact: "breakdownOf xs Food + breakdownOf xs Transportation + breakdownOf xs Entertainment +
     breakdownOf xs Shopping + breakdownOf xs Bills + breakdownOf xs Other = sumAmounts xs"
    by (simp add: total bucket amounts_partition [of xs])
  have "foldl jsAdd 0 (map (breakdownOf xs) categoryKeys) = sum_list (map (breakdownOf xs) categoryKeys)"
    using assms exactFrom_foldl [of 0 "map (breakdownOf xs) categoryKeys"]
    by (simp add: noRounding_def)
  also have "\<dots> = breakdownOf xs Food + breakdownOf xs Transportation +
     breakdownOf xs Entertainment + breakdownOf xs Shopping + breakdownOf xs Bills +
     breakdownOf xs Other"
    by (simp add: categoryKeys_def)
  finally show "foldl jsAdd 0 (map (breakdownOf xs) categoryKeys) = sumAmounts xs"
    using exact by simp
qed

lemma finiteFrom_whole:
  assumes "\<forall>x \<in> set xs. \<exists>n. 0 \<le> n \<and> x = real_of_int n" and "0 \<le> a"
    and "real_of_int a + sum_list xs \<le> 2 ^ 53"
  shows "finiteFrom (real_of_int a) xs"
  using assms
proof (induction xs arbitrary: a)
  case Nil
  show ?case by simp
next
  case (Cons x xs)
  then obtain n where n: "0 \<le> n" "x = real_of_int n"
    by auto
  have rest: "0 \<le> sum_list xs"
    using Cons.prems(1) by (intro sum_list_nonneg) auto
  have le: "real_of_int (a + n) \<le> 2 ^ 53"
    using Cons.prems(3) rest n by simp
  then have "a + n \<le> 2 ^ 53"
    by (metis of_int_le_iff of_int_numeral of_int_power)
  then have "\<bar>a + n\<bar> \<le> 2 ^ 53"
    using n Cons.prems(2) by simp
  then have step: "jsAdd (real_of_int a) x = real_of_int (a + n)"
    using roundToDouble_of_int [of "a + n"] by (simp add: jsAdd_def n)
  have "(2::real) ^ 53 \<le> 2 ^ 1023"
    by (rule power_increasing) simp_all
  moreover have "\<bar>real_of_int a + x\<bar> = real_of_int (a + n)"
    using n Cons.prems(2) by simp
  ultimately have size: "\<bar>real_of_int a + x\<bar> \<le> 2 ^ 1023"
    using le by linarith
  have "finiteFrom (real_of_int (a + n)) xs"
    using Cons.prems n by (intro Cons.IH) (auto simp: add.assoc)
  then show ?case
    using step size by (simp only: finiteFrom.simps)
qed

lemma whole_sum:
  "\<forall>x \<in> set xs. \<exists>n. 0 \<le> n \<and> x = real_of_int n \<Longrightarrow> \<exists>n. 0 \<le> n \<and> sum_list xs = real_of_int n"
proof (induction xs)
  case Nil
  show ?case by (intro exI [of _ 0]) simp
next
  case (Cons x xs)
  then obtain n m where "0 \<le> n" "x = real_of_int n" "0 \<le> m" "sum_list xs = real_of_int m"
    by auto
  then show ?case
    by (intro exI [of _ "n + m"]) simp
qed

lemma whole_amounts_exact:
  assumes whole: "\<forall>expense \<in> set expenses. \<exists>n. 0 \<le> n \<and> amount expense = real_of_int n"
    and bound: "sum_list (map amount expenses) \<le> 2 ^ 53"
  shows "noRounding expenses" and "noOverflow expenses"
proof -
  have nonneg: "\<forall>expense \<in> set expenses. 0 \<le> amount expense"
    using whole by fastforce
  have part: "\<forall>x \<in> set (amountsOf c expenses). \<exists>n. 0 \<le> n \<and> x = real_of_int n" for c
    using whole by (auto simp: amountsOf_def)
  have small: "real_of_int 0 + sum_list (amountsOf c expenses) \<le> 2 ^ 53" for c
  proof -
    have "sum_list (amountsOf c expenses) \<le> sum_list (map amount expenses)"
      unfolding amountsOf_def using nonneg by (rule sum_list_filter_le)
    then show ?thesis using bound by simp
  qed
  have exactTotal: "exactFrom (real_of_int 0) (map amount expenses)"
    using whole bound by (intro exactFrom_whole) auto
  have exactBucket: "exactFrom (real_of_int 0) (amountsOf c expenses)" for c
    using part [of c] _ small [of c] by (rule exactFrom_whole) simp
  have bucket: "breakdownOf expenses c = sum_list (amountsOf c expenses)" for c
    using exactBucket [of c] by (simp add: breakdownOf_foldl exactFrom_foldl)
  have wholeBuckets: "\<forall>x \<in> set (map (breakdownOf expenses) categoryKeys).
      \<exists>n. 0 \<le> n \<and> x = real_of_int n"
    using whole_sum [OF part] by (auto simp: bucket)
  have "sum_list (map (breakdownOf expenses) categoryKeys) = sum_list (map amount expenses)"
    by (simp add: categoryKeys_def bucket amounts_partition [of expenses])
  then have sumBuckets: "real_of_int 0 + sum_list (map (breakdownOf expenses) categoryKeys) \<le> 2 ^ 53"
    using bound by simp
  have "exactFrom (real_of_int 0) (map (breakdownOf expenses) categoryKeys)"
    using wholeBuckets _ sumBuckets by (rule exactFrom_whole) simp
  then show "noRounding expenses"
    using exactTotal exactBucket by (simp add: noRounding_def list_all_iff)
  have "finiteFrom (real_of_int 0) (map amount expenses)"
    using whole bound by (intro finiteFrom_whole) auto
  moreover have "finiteFrom (real_of_int 0) (amountsOf c expenses)" for c
    using part [of c] _ small [of c] by (rule finiteFrom_whole) simp
  moreover have "finiteFrom (real_of_int 0) (map (breakdownOf expenses) categoryKeys)"
    using wholeBuckets _ sumBuckets by (rule finiteFrom_whole) simp
  ultimately show "noOverflow expenses"
    by (simp add: noOverflow_def list_all_iff)
qed

lemma d1099: "roundToDouble (1099 / 100) = 6186819988100219 / 562949953421312"
  by (simp add: evalDouble)

lemma d55: "roundToDouble (11 / 2) = 11 / 2"
  by (simp add: evalDouble)

lemma decimal_noOverflow: "noOverflow decimalExpenses"
proof -
  have amounts: "map amount decimalExpenses = [6186819988100219 / 562949953421312, 11 / 2]"
    by (simp add: decimalExpenses_def mkExpense_def d1099 d55)
  have food: "amountsOf Food decimalExpenses = [6186819988100219 / 562949953421312, 11 / 2]"
    by (simp add: amountsOf_def decimalExpenses_def mkExpense_def d1099 d55)
  have rest: "amountsOf Transportation decimalExpenses = []"
    "amountsOf Entertainment decimalExpenses = []" "amountsOf Shopping decimalExpenses = []"
    "amountsOf Bills decimalExpenses = []" "amountsOf Other decimalExpenses = []"
    by (simp_all add: amountsOf_def decimalExpenses_def mkExpense_def)
  have first: "jsAdd 0 (6186819988100219 / 562949953421312) = 6186819988100219 / 562949953421312"
    by (simp add: jsAdd_def) (simp add: evalDouble)
  have run: "finiteFrom 0 [6186819988100219 / 562949953421312, 11 / 2]"
    by (simp add: first)
  have bucket: "breakdownOf decimalExpenses Food = 2320761182979359 / 140737488355328"
    by (simp add: breakdownOf_foldl food first) (simp add: jsAdd_def evalDouble)
  have empty: "breakdownOf decimalExpenses Transportation = 0"
    "breakdownOf decimalExpenses Entertainment = 0" "breakdownOf decimalExpenses Shopping = 0"
    "breakdownOf decimalExpenses Bills = 0" "breakdownOf decimalExpenses Other = 0"
    by (simp_all add: breakdownOf_foldl rest)
  have same: "jsAdd (2320761182979359 / 140737488355328) 0 = 2320761182979359 / 140737488355328"
    by (simp add: jsAdd_def) (simp add: evalDouble)
  have start: "jsAdd 0 (2320761182979359 / 140737488355328) = 2320761182979359 / 140737488355328"
    by (simp add: jsAdd_def) (simp add: evalDouble)
  have buckets: "finiteFrom 0 (map (breakdownOf decimalExpenses) categoryKeys)"
    by (simp add: categoryKeys_def bucket empty start same)
  show ?thesis
    using run buckets by (simp add: noOverflow_def categoryKeys_def amounts food rest)
qed

lemma rounding_noOverflow: "noOverflow roundingExpenses"
proof -
  have total: "finiteFrom 0 (map amount roundingExpenses)"
    by (simp add: roundingExpenses_def mkExpense_def d01 d07 d03 jsAdd_def)
       (simp add: evalDouble)
  have food: "finiteFrom 0 (amountsOf Food roundingExpenses)"
    by (simp add: amountsOf_def roundingExpenses_def mkExpense_def d01 d07 d03 jsAdd_def)
       (simp add: evalDouble)
  have transportation: "finiteFrom 0 (amountsOf Transportation roundingExpenses)"
    by (simp add: amountsOf_def roundingExpenses_def mkExpense_def d01 d07 d03 jsAdd_def)
  have rest: "finiteFrom 0 (amountsOf Entertainment roundingExpenses)"
    "finiteFrom 0 (amountsOf Shopping roundingExpenses)"
    "finiteFrom 0 (amountsOf Bills roundingExpenses)"
    "finiteFrom 0 (amountsOf Other roundingExpenses)"
    by (simp_all add: amountsOf_def roundingExpenses_def mkExpense_def)
  have buckets: "finiteFrom 0 (map (breakdownOf roundingExpenses) categoryKeys)"
    by (simp add: categoryKeys_def rounding_food rounding_transportation rounding_rest jsAdd_def
        roundToDouble_0)
       (simp add: evalDouble)
  show ?thesis
    using total food transportation rest buckets
    by (simp add: noOverflow_def categoryKeys_def)
qed

lemma mock_whole:
  "\<forall>expense \<in> set mockExpenses. \<exists>n. 0 \<le> n \<and> amount expense = real_of_int n"
proof -
  have "\<exists>n. 0 \<le> n \<and> (50::real) = real_of_int n" "\<exists>n. 0 \<le> n \<and> (100::real) = real_of_int n"
    "\<exists>n. 0 \<le> n \<and> (75::real) = real_of_int n" "\<exists>n. 0 \<le> n \<and> (200::real) = real_of_int n"
    by (intro exI [of _ 50] exI [of _ 100] exI [of _ 75] exI [of _ 200]; simp)+
  then show ?thesis
    by (simp add: mockExpenses_def mkExpense_def)
qed

lemma mock_sum: "sum_list (map amount mockExpenses) = 425"
  by (simp add: mockExpenses_def mkExpense_def)

section \<open>The claims\<close>

text \<open>
  C1. \<open>calculateSpendingSummary\<close> returns \<open>topCategory = null\<close> exactly when no bucket of
  the breakdown exceeds 0. Otherwise \<open>topCategory\<close> is a category paired with its own
  bucket's amount, that amount is positive and no bucket is larger, and every category
  before it in the order Food, Transportation, Entertainment, Shopping, Bills, Other has a
  strictly smaller bucket: it is the first category that holds the maximum.
\<close>

theorem topCategory_first_strict_maximum:
  "(topCategory (calculateSpendingSummary clock expenses) = None \<longleftrightarrow>
      (\<forall>c. \<not> 0 < categoryBreakdown (calculateSpendingSummary clock expenses) c)) \<and>
   (\<forall>c a. topCategory (calculateSpendingSummary clock expenses) = Some (c, a) \<longrightarrow>
      a = categoryBreakdown (calculateSpendingSummary clock expenses) c \<and> 0 < a \<and>
      (\<forall>c'. categoryBreakdown (calculateSpendingSummary clock expenses) c' \<le> a) \<and>
      (\<forall>c'. keyPos c' < keyPos c \<longrightarrow>
          categoryBreakdown (calculateSpendingSummary clock expenses) c' < a))"
proof -
  define cb where "cb = breakdownOf expenses"
  have t: "topCategory (calculateSpendingSummary clock expenses) = findTopCategory cb"
    and b: "categoryBreakdown (calculateSpendingSummary clock expenses) = cb"
    by (simp_all add: calculateSpendingSummary_def cb_def Let_def)
  show ?thesis
    unfolding t b using findTopCategory_cases [of cb]
    by (auto simp: not_less) (meson not_less)
qed

theorem topCategory_first_strict_maximum_witness:
  "topCategory (calculateSpendingSummary sampleClock mockExpenses) = Some (Bills, 200) \<and>
   keyPos Food < keyPos Bills \<and>
   categoryBreakdown (calculateSpendingSummary sampleClock mockExpenses) Food < 200 \<and>
   categoryBreakdown (calculateSpendingSummary sampleClock mockExpenses) Other \<le> 200 \<and>
   categoryBreakdown (calculateSpendingSummary sampleClock equalExpenses) Food = 50 \<and>
   keyPos Food < keyPos Transportation \<and>
   topCategory (calculateSpendingSummary sampleClock equalExpenses) \<noteq> Some (Transportation, 50)"
proof -
  have top: "topCategory (calculateSpendingSummary sampleClock mockExpenses) = Some (Bills, 200)"
    by (simp add: calculateSpendingSummary_def Let_def mock_top)
  have pos: "keyPos Food < keyPos Bills" "keyPos Food < keyPos Transportation"
    by (simp_all add: keyPos_def categoryKeys_def)
  have food: "categoryBreakdown (calculateSpendingSummary sampleClock equalExpenses) Food = 50"
    by (simp add: calculateSpendingSummary_def Let_def breakdownOf_def equalExpenses_def
        mkExpense_def addToBucket_def initialBreakdown_def jsAdd_def roundToDouble_numeral)
  have tie: "topCategory (calculateSpendingSummary sampleClock equalExpenses)
      \<noteq> Some (Transportation, 50)"
    using topCategory_first_strict_maximum [of sampleClock equalExpenses] food pos(2)
    by force
  show ?thesis
    using topCategory_first_strict_maximum [of sampleClock mockExpenses] top pos food tie
    by simp
qed

text \<open>
  C2, as amended. The text \<open>generateCSV\<close> builds for the export modal is the header
  \<open>Date,Category,Amount,Description\<close> followed by one row per expense, each after a line
  break, and its first line is that header. \<open>exportToCSV\<close>, given a non-empty list
  whose dates all format, downloads a text of the same shape whose first line is
  \<open>Date,Category,Amount (GBP),Description\<close>.
\<close>

theorem csv_header_then_one_row_per_expense:
  "generateCSV numberToString data =
     ''Date,Category,Amount,Description'' @
       concat (map (\<lambda>expense. newline # modalRow numberToString expense) data) \<and>
   firstLine (generateCSV numberToString data) = ''Date,Category,Amount,Description'' \<and>
   (data \<noteq> [] \<longrightarrow> (\<forall>expense \<in> set data. formatDate (date expense) \<noteq> None) \<longrightarrow>
      (\<exists>csv. exportToCSV formatDate toFixed2 data = Download csv \<and>
         csv = ''Date,Category,Amount (GBP),Description'' @
             concat (map (\<lambda>expense. newline #
               exportRow toFixed2 expense (the (formatDate (date expense)))) data) \<and>
         firstLine csv = ''Date,Category,Amount (GBP),Description''))"
proof (intro conjI impI)
  show "generateCSV numberToString data =
     ''Date,Category,Amount,Description'' @
       concat (map (\<lambda>expense. newline # modalRow numberToString expense) data)"
    by (rule generateCSV_rows)
  show "firstLine (generateCSV numberToString data) = ''Date,Category,Amount,Description''"
    unfolding generateCSV_rows using header_modal_no_newline by (rule firstLine_header)
next
  assume ne: "data \<noteq> []" and ok: "\<forall>expense \<in> set data. formatDate (date expense) \<noteq> None"
  then have "exportRows formatDate toFixed2 data \<noteq> None"
    by (simp add: exportRows_None)
  then obtain rows where rows: "exportRows formatDate toFixed2 data = Some rows"
    by blast
  define csv where "csv = ''Date,Category,Amount (GBP),Description'' @
      concat (map (\<lambda>expense. newline #
        exportRow toFixed2 expense (the (formatDate (date expense)))) data)"
  have "concat (map (\<lambda>row. newline # row) rows) =
      concat (map (\<lambda>expense. newline #
        exportRow toFixed2 expense (the (formatDate (date expense)))) data)"
    by (simp add: exportRows_Some [OF rows] comp_def)
  then have run: "exportToCSV formatDate toFixed2 data = Download csv"
    using exportToCSV_rows [OF ne rows] by (simp add: csv_def)
  have "firstLine csv = ''Date,Category,Amount (GBP),Description''"
    unfolding csv_def using header_export_no_newline by (rule firstLine_header)
  then show "\<exists>csv. exportToCSV formatDate toFixed2 data = Download csv \<and>
         csv = ''Date,Category,Amount (GBP),Description'' @
             concat (map (\<lambda>expense. newline #
               exportRow toFixed2 expense (the (formatDate (date expense)))) data) \<and>
         firstLine csv = ''Date,Category,Amount (GBP),Description''"
    using run csv_def by blast
qed

theorem csv_header_then_one_row_per_expense_witness:
  "[groceries] \<noteq> [] \<and> sampleFormatDate (date groceries) = Some ''15/01/2025'' \<and>
   firstLine (generateCSV sampleNumberToString [groceries]) = ''Date,Category,Amount,Description'' \<and>
   exportToCSV sampleFormatDate sampleToFixed2 [groceries] =
     Download (''Date,Category,Amount (GBP),Description'' @
               newline # exportRow sampleToFixed2 groceries ''15/01/2025'')"
proof -
  have d: "sampleFormatDate (date groceries) = Some ''15/01/2025''"
    by (simp add: groceries_def mkExpense_def sampleFormatDate_def)
  show ?thesis
    using csv_header_then_one_row_per_expense
      [of sampleNumberToString "[groceries]" sampleFormatDate sampleToFixed2] d
    by auto
qed

text \<open>
  C2 as stated fails for \<open>exportToCSV\<close>: on the single expense "Groceries" the first
  line of the text is \<open>Date,Category,Amount (GBP),Description\<close>.
\<close>

theorem csv_header_counterexample:
  "exportToCSV sampleFormatDate sampleToFixed2 [groceries] =
     Download (''Date,Category,Amount (GBP),Description'' @ [newline] @
               ''15/01/2025,Food,50.00,'' @ [dquote] @ ''Groceries'' @ [dquote]) \<and>
   firstLine (''Date,Category,Amount (GBP),Description'' @ [newline] @
               ''15/01/2025,Food,50.00,'' @ [dquote] @ ''Groceries'' @ [dquote])
     \<noteq> ''Date,Category,Amount,Description''"
  by (simp add: groceries_export firstLine_def newline_def)

text \<open>
  C3. On the empty list \<open>calculateSpendingSummary\<close> yields \<open>totalSpending = 0\<close>,
  \<open>monthlySpending = 0\<close>, \<open>topCategory = null\<close> and six buckets equal to 0.
\<close>

theorem calculateSpendingSummary_empty:
  "totalSpending (calculateSpendingSummary clock []) = 0 \<and>
   monthlySpending (calculateSpendingSummary clock []) = 0 \<and>
   topCategory (calculateSpendingSummary clock []) = None \<and>
   categoryBreakdown (calculateSpendingSummary clock []) Food = 0 \<and>
   categoryBreakdown (calculateSpendingSummary clock []) Transportation = 0 \<and>
   categoryBreakdown (calculateSpendingSummary clock []) Entertainment = 0 \<and>
   categoryBreakdown (calculateSpendingSummary clock []) Shopping = 0 \<and>
   categoryBreakdown (calculateSpendingSummary clock []) Bills = 0 \<and>
   categoryBreakdown (calculateSpendingSummary clock []) Other = 0"
  by (simp add: calculateSpendingSummary_def sumAmounts_def breakdownOf_def initialBreakdown_def
      findTopCategory_def categoryKeys_def topStep_def)

text \<open>
  C4. The amount rule of \<open>validateExpenseForm\<close>: an empty amount gives "Amount is
  required"; an amount that does not parse, or parses to a value \<open>\<le> 0\<close>, gives "Amount
  must be a positive number"; a value above 1,000,000 gives "Amount seems unreasonably
  large"; and there is no amount error exactly when the amount parses to a value in
  \<open>(0, 1000000]\<close>.
\<close>

theorem amount_rule:
  "(formAmount formData = [] \<longrightarrow>
      validateExpenseForm parseNumber parseInstant now formData ''amount''
        = Some ''Amount is required'') \<and>
   (formAmount formData \<noteq> [] \<and> parseNumber (formAmount formData) = None \<longrightarrow>
      validateExpenseForm parseNumber parseInstant now formData ''amount''
        = Some ''Amount must be a positive number'') \<and>
   (\<forall>v. formAmount formData \<noteq> [] \<and> parseNumber (formAmount formData) = Some v \<and> v \<le> 0 \<longrightarrow>
      validateExpenseForm parseNumber parseInstant now formData ''amount''
        = Some ''Amount must be a positive number'') \<and>
   (\<forall>v. formAmount formData \<noteq> [] \<and> parseNumber (formAmount formData) = Some v \<and> 1000000 < v \<longrightarrow>
      validateExpenseForm parseNumber parseInstant now formData ''amount''
        = Some ''Amount seems unreasonably large'') \<and>
   (validateExpenseForm parseNumber parseInstant now formData ''amount'' = None \<longleftrightarrow>
      formAmount formData \<noteq> [] \<and>
      (\<exists>v. parseNumber (formAmount formData) = Some v \<and> 0 < v \<and> v \<le> 1000000))"
  by (auto simp: validateExpenseForm_def amountRule_def split: option.splits)

theorem amount_rule_witness:
  "validateExpenseForm parseFloat (parseDate sampleClock) sampleToday
     (validFormData\<lparr>formAmount := ''''\<rparr>) ''amount'' = Some ''Amount is required'' \<and>
   validateExpenseForm parseFloat (parseDate sampleClock) sampleToday
     (validFormData\<lparr>formAmount := ''abc''\<rparr>) ''amount'' = Some ''Amount must be a positive number'' \<and>
   validateExpenseForm parseFloat (parseDate sampleClock) sampleToday
     (validFormData\<lparr>formAmount := ''0''\<rparr>) ''amount'' = Some ''Amount must be a positive number'' \<and>
   validateExpenseForm parseFloat (parseDate sampleClock) sampleToday
     (validFormData\<lparr>formAmount := ''1000001''\<rparr>) ''amount''
       = Some ''Amount seems unreasonably large'' \<and>
   validateExpenseForm parseFloat (parseDate sampleClock) sampleToday
     (validFormData\<lparr>formAmount := ''1000000''\<rparr>) ''amount'' = None"
proof -
  note rule = amount_rule [where parseNumber = parseFloat and parseInstant = "parseDate sampleClock"
      and now = sampleToday]
  have "validateExpenseForm parseFloat (parseDate sampleClock) sampleToday
     (validFormData\<lparr>formAmount := ''''\<rparr>) ''amount'' = Some ''Amount is required''"
    using rule [where formData = "validFormData\<lparr>formAmount := ''''\<rparr>"] by simp
  moreover have "validateExpenseForm parseFloat (parseDate sampleClock) sampleToday
     (validFormData\<lparr>formAmount := ''abc''\<rparr>) ''amount'' = Some ''Amount must be a positive number''"
    using rule [where formData = "validFormData\<lparr>formAmount := ''abc''\<rparr>"]
    by (simp add: parseFloat_samples)
  moreover have "validateExpenseForm parseFloat (parseDate sampleClock) sampleToday
     (validFormData\<lparr>formAmount := ''0''\<rparr>) ''amount'' = Some ''Amount must be a positive number''"
    using rule [where formData = "validFormData\<lparr>formAmount := ''0''\<rparr>"]
    by (simp add: parseFloat_samples)
  moreover have "validateExpenseForm parseFloat (parseDate sampleClock) sampleToday
     (validFormData\<lparr>formAmount := ''1000001''\<rparr>) ''amount''
       = Some ''Amount seems unreasonably large''"
    using rule [where formData = "validFormData\<lparr>formAmount := ''1000001''\<rparr>"]
    by (simp add: parseFloat_samples)
  moreover have "validateExpenseForm parseFloat (parseDate sampleClock) sampleToday
     (validFormData\<lparr>formAmount := ''1000000''\<rparr>) ''amount'' = None"
    using rule [where formData = "validFormData\<lparr>formAmount := ''1000000''\<rparr>"]
    by (simp add: parseFloat_samples)
  ultimately show ?thesis
    by (intro conjI)
qed

text \<open>
  C5. In the text of either export, the row of the expense at position \<open>i\<close> ends with
  its description wrapped in double quotes, every double quote inside it doubled: the text
  is what precedes the field (the earlier rows, a line break and the three first fields,
  each followed by a comma), then the quoted field, then the later rows. A reader of
  RFC 4180 quoted fields, started in the exported text where the field starts, returns the
  original description and the text after the field. For \<open>exportToCSV\<close> this is said of
  the text it downloads, when every date formats.
\<close>

theorem quoted_description_round_trip:
  assumes "i < length data"
  shows
    "(\<exists>after.
        (after = [] \<or> hd after = newline) \<and>
        generateCSV numberToString data =
          (generateCSV numberToString (take i data) @ [newline] @ date (data ! i) @ '','' @
           categoryName (category (data ! i)) @ '','' @ numberToString (amount (data ! i)) @ '','') @
          [dquote] @ doubleQuotes (description (data ! i)) @ [dquote] @ after \<and>
        readQuotedField
          (drop (length (generateCSV numberToString (take i data) @ [newline] @ date (data ! i) @
                   '','' @ categoryName (category (data ! i)) @ '','' @
                   numberToString (amount (data ! i)) @ '',''))
             (generateCSV numberToString data))
          = Some (description (data ! i), after)) \<and>
     ((\<forall>expense \<in> set data. formatDate (date expense) \<noteq> None) \<longrightarrow>
      (\<exists>csv front after.
        exportToCSV formatDate toFixed2 data = Download csv \<and>
        (after = [] \<or> hd after = newline) \<and>
        front =
          (''Date,Category,Amount (GBP),Description'' @
             concat (map (\<lambda>expense. newline #
               exportRow toFixed2 expense (the (formatDate (date expense)))) (take i data))) @
          [newline] @ the (formatDate (date (data ! i))) @ '','' @
          categoryName (category (data ! i)) @ '','' @ toFixed2 (amount (data ! i)) @ '','' \<and>
        csv = front @ [dquote] @ doubleQuotes (description (data ! i)) @ [dquote] @ after \<and>
        readQuotedField (drop (length front) csv) = Some (description (data ! i), after)))"
proof (intro conjI impI)
  have split: "data = take i data @ data ! i # drop (Suc i) data"
    using assms by (rule id_take_nth_drop)
  define after where
    "after = concat (map (\<lambda>expense. newline # modalRow numberToString expense) (drop (Suc i) data))"
  define front where
    "front = generateCSV numberToString (take i data) @ [newline] @ date (data ! i) @ '','' @
       categoryName (category (data ! i)) @ '','' @ numberToString (amount (data ! i)) @ '',''"
  have tail: "after = [] \<or> hd after = newline"
    unfolding after_def by (rule rows_after_head)
  have "generateCSV numberToString data =
      generateCSV numberToString (take i data @ data ! i # drop (Suc i) data)"
    by (rule arg_cong [where f = "generateCSV numberToString"]) (rule split)
  then have shape: "generateCSV numberToString data =
      front @ [dquote] @ doubleQuotes (description (data ! i)) @ [dquote] @ after"
    by (simp only: generateCSV_split front_def after_def append_assoc)
  have "readQuotedField (drop (length front) (generateCSV numberToString data))
      = Some (description (data ! i), after)"
    unfolding shape using tail by (rule readQuotedField_at)
  then show "\<exists>after.
        (after = [] \<or> hd after = newline) \<and>
        generateCSV numberToString data =
          (generateCSV numberToString (take i data) @ [newline] @ date (data ! i) @ '','' @
           categoryName (category (data ! i)) @ '','' @ numberToString (amount (data ! i)) @ '','') @
          [dquote] @ doubleQuotes (description (data ! i)) @ [dquote] @ after \<and>
        readQuotedField
          (drop (length (generateCSV numberToString (take i data) @ [newline] @ date (data ! i) @
                   '','' @ categoryName (category (data ! i)) @ '','' @
                   numberToString (amount (data ! i)) @ '',''))
             (generateCSV numberToString data))
          = Some (description (data ! i), after)"
    using tail shape unfolding front_def by blast
next
  assume ok: "\<forall>expense \<in> set data. formatDate (date expense) \<noteq> None"
  have ne: "data \<noteq> []"
    using assms by auto
  have split: "data = take i data @ data ! i # drop (Suc i) data"
    using assms by (rule id_take_nth_drop)
  define csv where "csv = ''Date,Category,Amount (GBP),Description'' @
       concat (map (\<lambda>expense. newline #
         exportRow toFixed2 expense (the (formatDate (date expense)))) data)"
  define after where
    "after = concat (map (\<lambda>expense. newline #
         exportRow toFixed2 expense (the (formatDate (date expense)))) (drop (Suc i) data))"
  define front where
    "front = (''Date,Category,Amount (GBP),Description'' @
             concat (map (\<lambda>expense. newline #
               exportRow toFixed2 expense (the (formatDate (date expense)))) (take i data))) @
          [newline] @ the (formatDate (date (data ! i))) @ '','' @
          categoryName (category (data ! i)) @ '','' @ toFixed2 (amount (data ! i)) @ '',''"
  have run: "exportToCSV formatDate toFixed2 data = Download csv"
    unfolding csv_def using ne ok by (rule exportToCSV_text)
  have tail: "after = [] \<or> hd after = newline"
    unfolding after_def by (rule rows_after_head)
  have "csv = ''Date,Category,Amount (GBP),Description'' @
       concat (map (\<lambda>expense. newline #
         exportRow toFixed2 expense (the (formatDate (date expense))))
           (take i data @ data ! i # drop (Suc i) data))"
    unfolding csv_def
    by (rule arg_cong [where f = "\<lambda>xs. ''Date,Category,Amount (GBP),Description'' @
       concat (map (\<lambda>expense. newline #
         exportRow toFixed2 expense (the (formatDate (date expense)))) xs)"]) (rule split)
  then have shape: "csv = front @ [dquote] @ doubleQuotes (description (data ! i)) @ [dquote] @ after"
    by (simp only: export_text_split front_def after_def append_assoc)
  have "readQuotedField (drop (length front) csv) = Some (description (data ! i), after)"
    unfolding shape using tail by (rule readQuotedField_at)
  then show "\<exists>csv front after.
        exportToCSV formatDate toFixed2 data = Download csv \<and>
        (after = [] \<or> hd after = newline) \<and>
        front =
          (''Date,Category,Amount (GBP),Description'' @
             concat (map (\<lambda>expense. newline #
               exportRow toFixed2 expense (the (formatDate (date expense)))) (take i data))) @
          [newline] @ the (formatDate (date (data ! i))) @ '','' @
          categoryName (category (data ! i)) @ '','' @ toFixed2 (amount (data ! i)) @ '','' \<and>
        csv = front @ [dquote] @ doubleQuotes (description (data ! i)) @ [dquote] @ after \<and>
        readQuotedField (drop (length front) csv) = Some (description (data ! i), after)"
    using run tail shape front_def by blast
qed

theorem quoted_description_round_trip_witness:
  "1 < length quotedExpenses \<and> description (quotedExpenses ! 1) = quip \<and>
   doubleQuotes quip = ''Dinner at '' @ [dquote, dquote] @ ''Joe's'' @ [dquote, dquote] @ '', with tip'' \<and>
   sampleFormatDate (date groceries) = Some ''15/01/2025'' \<and>
   (\<exists>after.
      (after = [] \<or> hd after = newline) \<and>
      generateCSV sampleNumberToString quotedExpenses =
        (generateCSV sampleNumberToString (take 1 quotedExpenses) @ [newline] @
         date (quotedExpenses ! 1) @ '','' @ categoryName (category (quotedExpenses ! 1)) @ '','' @
         sampleNumberToString (amount (quotedExpenses ! 1)) @ '','') @
        [dquote] @ doubleQuotes quip @ [dquote] @ after \<and>
      readQuotedField
        (drop (length (generateCSV sampleNumberToString (take 1 quotedExpenses) @ [newline] @
                 date (quotedExpenses ! 1) @ '','' @ categoryName (category (quotedExpenses ! 1)) @
                 '','' @ sampleNumberToString (amount (quotedExpenses ! 1)) @ '',''))
           (generateCSV sampleNumberToString quotedExpenses))
        = Some (quip, after)) \<and>
   (\<exists>csv front after.
      exportToCSV sampleFormatDate sampleToFixed2 quotedExpenses = Download csv \<and>
      (after = [] \<or> hd after = newline) \<and>
      csv = front @ [dquote] @ doubleQuotes quip @ [dquote] @ after \<and>
      readQuotedField (drop (length front) csv) = Some (quip, after))"
proof -
  have len: "1 < length quotedExpenses"
    by (simp add: quotedExpenses_def)
  have d: "description (quotedExpenses ! 1) = quip"
    by (simp add: quotedExpenses_def)
  have q: "doubleQuotes quip =
      ''Dinner at '' @ [dquote, dquote] @ ''Joe's'' @ [dquote, dquote] @ '', with tip''"
    by (simp add: doubleQuotes_def quip_def dquote_def)
  have f: "sampleFormatDate (date groceries) = Some ''15/01/2025''"
    by (simp add: groceries_def mkExpense_def sampleFormatDate_def)
  have ok: "\<forall>expense \<in> set quotedExpenses. sampleFormatDate (date expense) \<noteq> None"
    using f by (simp add: quotedExpenses_def)
  note inst = quoted_description_round_trip
    [OF len, of sampleNumberToString sampleFormatDate sampleToFixed2]
  have modal: "\<exists>after.
      (after = [] \<or> hd after = newline) \<and>
      generateCSV sampleNumberToString quotedExpenses =
        (generateCSV sampleNumberToString (take 1 quotedExpenses) @ [newline] @
         date (quotedExpenses ! 1) @ '','' @ categoryName (category (quotedExpenses ! 1)) @ '','' @
         sampleNumberToString (amount (quotedExpenses ! 1)) @ '','') @
        [dquote] @ doubleQuotes quip @ [dquote] @ after \<and>
      readQuotedField
        (drop (length (generateCSV sampleNumberToString (take 1 quotedExpenses) @ [newline] @
                 date (quotedExpenses ! 1) @ '','' @ categoryName (category (quotedExpenses ! 1)) @
                 '','' @ sampleNumberToString (amount (quotedExpenses ! 1)) @ '',''))
           (generateCSV sampleNumberToString quotedExpenses))
        = Some (quip, after)"
    using inst [THEN conjunct1] unfolding d .
  have "\<exists>csv front after.
        exportToCSV sampleFormatDate sampleToFixed2 quotedExpenses = Download csv \<and>
        (after = [] \<or> hd after = newline) \<and>
        front =
          (''Date,Category,Amount (GBP),Description'' @
             concat (map (\<lambda>expense. newline #
               exportRow sampleToFixed2 expense (the (sampleFormatDate (date expense))))
                 (take 1 quotedExpenses))) @
          [newline] @ the (sampleFormatDate (date (quotedExpenses ! 1))) @ '','' @
          categoryName (category (quotedExpenses ! 1)) @ '','' @
          sampleToFixed2 (amount (quotedExpenses ! 1)) @ '','' \<and>
        csv = front @ [dquote] @ doubleQuotes quip @ [dquote] @ after \<and>
        readQuotedField (drop (length front) csv) = Some (quip, after)"
    using inst [THEN conjunct2, THEN mp, OF ok] unfolding d .
  then have export: "\<exists>csv front after.
      exportToCSV sampleFormatDate sampleToFixed2 quotedExpenses = Download csv \<and>
      (after = [] \<or> hd after = newline) \<and>
      csv = front @ [dquote] @ doubleQuotes quip @ [dquote] @ after \<and>
      readQuotedField (drop (length front) csv) = Some (quip, after)"
    by blast
  show ?thesis
    using len d q f modal export by (intro conjI)
qed

text \<open>
  C6. The date rule of \<open>validateExpenseForm\<close>: an empty date gives "Date is required";
  a date that parses to an instant strictly after now gives "Date cannot be in the
  future"; a date that parses to an instant not after now (today's date, any past date)
  gives no date error; and there is no date error exactly when the date is not empty and
  does not parse to an instant after now.
\<close>

theorem date_rule:
  "(formDate formData = [] \<longrightarrow>
      validateExpenseForm parseNumber parseInstant now formData ''date'' = Some ''Date is required'') \<and>
   (\<forall>t. formDate formData \<noteq> [] \<and> parseInstant (formDate formData) = Some t \<and> now < t \<longrightarrow>
      validateExpenseForm parseNumber parseInstant now formData ''date''
        = Some ''Date cannot be in the future'') \<and>
   (\<forall>t. formDate formData \<noteq> [] \<and> parseInstant (formDate formData) = Some t \<and> t \<le> now \<longrightarrow>
      validateExpenseForm parseNumber parseInstant now formData ''date'' = None) \<and>
   (validateExpenseForm parseNumber parseInstant now formData ''date'' = None \<longleftrightarrow>
      formDate formData \<noteq> [] \<and>
      \<not> (\<exists>t. parseInstant (formDate formData) = Some t \<and> now < t))"
  by (auto simp: validateExpenseForm_def dateRule_def split: option.splits)

theorem date_rule_witness:
  "validateExpenseForm parseFloat (parseDate sampleClock) sampleToday
     (validFormData\<lparr>formDate := ''''\<rparr>) ''date'' = Some ''Date is required'' \<and>
   validateExpenseForm parseFloat (parseDate sampleClock) 1600000000000
     validFormData ''date'' = Some ''Date cannot be in the future'' \<and>
   validateExpenseForm parseFloat (parseDate sampleClock) sampleToday
     validFormData ''date'' = None \<and>
   validateExpenseForm parseFloat (parseDate sampleClock) sampleToday
     (validFormData\<lparr>formDate := ''2020-01-01''\<rparr>) ''date'' = None"
proof -
  note rule = date_rule [where parseNumber = parseFloat and parseInstant = "parseDate sampleClock"]
  have "validateExpenseForm parseFloat (parseDate sampleClock) sampleToday
     (validFormData\<lparr>formDate := ''''\<rparr>) ''date'' = Some ''Date is required''"
    using rule [where formData = "validFormData\<lparr>formDate := ''''\<rparr>" and now = sampleToday]
    by simp
  moreover have "validateExpenseForm parseFloat (parseDate sampleClock) 1600000000000
     validFormData ''date'' = Some ''Date cannot be in the future''"
    using rule [where formData = validFormData and now = 1600000000000]
    by (simp add: validFormData_def sample_dates)
  moreover have "validateExpenseForm parseFloat (parseDate sampleClock) sampleToday
     validFormData ''date'' = None"
    using rule [where formData = validFormData and now = sampleToday]
    by (simp add: validFormData_def sample_dates sampleToday_def)
  moreover have "validateExpenseForm parseFloat (parseDate sampleClock) sampleToday
     (validFormData\<lparr>formDate := ''2020-01-01''\<rparr>) ''date'' = None"
    using rule [where formData = "validFormData\<lparr>formDate := ''2020-01-01''\<rparr>" and now = sampleToday]
    by (simp add: sample_dates sampleToday_def)
  ultimately show ?thesis
    by (intro conjI)
qed

text \<open>
  C7, as amended. \<open>parseCurrency\<close> keeps the digits and decimal points of its input
  (\<open>cleaned\<close>). When the remainder is a valid number, the result is that number; in
  general the result is the number spelled by the longest prefix of the remainder that is
  a valid number, and 0 when no prefix is one. In particular the empty string, "abc", "."
  and ".." give 0, and a pound sign followed by "1,234.56" gives 1234.56.
\<close>

theorem parseCurrency_reads_longest_decimal_prefix:
  "(isDecimal (cleaned s) \<longrightarrow> parseCurrency s = roundToDouble (decimalValue (cleaned s))) \<and>
   (\<forall>p. prefix p (cleaned s) \<and> isDecimal p \<and>
        (\<forall>p'. prefix p' (cleaned s) \<and> isDecimal p' \<longrightarrow> length p' \<le> length p) \<longrightarrow>
      parseCurrency s = roundToDouble (decimalValue p)) \<and>
   ((\<forall>p. prefix p (cleaned s) \<longrightarrow> \<not> isDecimal p) \<longrightarrow> parseCurrency s = 0) \<and>
   parseCurrency '''' = 0 \<and> parseCurrency ''abc'' = 0 \<and> parseCurrency ''.'' = 0 \<and>
   parseCurrency ''..'' = 0 \<and>
   parseCurrency (pound @ ''1,234.56'') = roundToDouble 1234.56"
proof -
  have whole: "parseCurrency s = roundToDouble (decimalValue (cleaned s))" if "isDecimal (cleaned s)"
  proof (rule parseCurrency_prefix_value)
    show "prefix (cleaned s) (cleaned s)" by simp
    show "isDecimal (cleaned s)" by (rule that)
    show "\<forall>p'. prefix p' (cleaned s) \<and> isDecimal p' \<longrightarrow> length p' \<le> length (cleaned s)"
      by (simp add: prefix_length_le)
  qed
  show ?thesis
    using whole parseCurrency_prefix_value [of _ s] parseCurrency_no_prefix [of s]
    by (simp add: parseCurrency_examples parseCurrency_pounds)
qed

theorem parseCurrency_reads_longest_decimal_prefix_witness:
  "isDecimal (cleaned ''12.50'') \<and> parseCurrency ''12.50'' = 25 / 2 \<and>
   prefix ''1.2'' (cleaned ''1.2.3'') \<and> isDecimal ''1.2'' \<and>
   decimalValue ''1.2'' = 6 / 5 \<and> parseCurrency ''1.2.3'' = roundToDouble (6 / 5) \<and>
   \<not> isDecimal (numericPrefix (cleaned ''..5'')) \<and> parseCurrency ''..5'' = 0"
proof -
  have c1: "cleaned ''12.50'' = ''12.50''"
    by (simp add: cleaned_def isDigit_def)
  have v1: "isDecimal ''12.50''"
    by (simp add: isDecimal_def isDigit_def)
  have d1: "decimalValue ''12.50'' = 25 / 2"
    by (simp add: decimalValue_def isDigit_def digitsToNat_def digitValue_def)
  have r1: "roundToDouble (25 / 2) = 25 / 2"
    by (simp add: evalDouble)
  have p2: "prefix ''1.2'' (cleaned ''1.2.3'')"
    by (simp add: cleaned_dotted)
  have v2: "isDecimal ''1.2''"
    by (simp add: isDecimal_def isDigit_def)
  have n2: "numericPrefix ''1.2.3'' = ''1.2''"
    by (simp add: numericPrefix_def isDigit_def)
  have l2: "\<forall>p'. prefix p' (cleaned ''1.2.3'') \<and> isDecimal p' \<longrightarrow> length p' \<le> length ''1.2''"
    using numericPrefix_longest [of _ "''1.2.3''"] by (simp add: cleaned_dotted n2)
  have d2: "decimalValue ''1.2'' = 6 / 5"
    by (simp add: decimalValue_def isDigit_def digitsToNat_def digitValue_def)
  have c3: "cleaned ''..5'' = ''..5''"
    by (simp add: cleaned_def isDigit_def)
  have n3: "numericPrefix ''..5'' = ''.''"
    by (simp add: numericPrefix_def isDigit_def)
  have v3: "\<not> isDecimal ''.''"
    by (simp add: isDecimal_def isDigit_def)
  have l3: "\<forall>p. prefix p (cleaned ''..5'') \<longrightarrow> \<not> isDecimal p"
    using numericPrefix_longest [of _ "''..5''"] by (auto simp: c3 n3 v3)
  have a: "parseCurrency ''12.50'' = 25 / 2"
    using parseCurrency_reads_longest_decimal_prefix [of "''12.50''"] by (simp add: c1 v1 d1 r1)
  have b: "parseCurrency ''1.2.3'' = roundToDouble (6 / 5)"
    using parseCurrency_reads_longest_decimal_prefix [of "''1.2.3''"] p2 v2 l2 d2 by metis
  have c: "parseCurrency ''..5'' = 0"
    using parseCurrency_reads_longest_decimal_prefix [of "''..5''"] l3 by blast
  show ?thesis
    using a b c by (simp add: c1 v1 p2 v2 d2 c3 n3 v3)
qed

text \<open>
  C7 as stated fails: the remainder of "1.2.3" is "1.2.3", which is not a valid number,
  yet \<open>parseCurrency\<close> returns 1.2 and not 0.
\<close>

theorem parseCurrency_counterexample:
  "\<not> isDecimal (cleaned ''1.2.3'') \<and>
   parseCurrency ''1.2.3'' = 5404319552844595 / 4503599627370496 \<and>
   spec_parseCurrency ''1.2.3'' = 0 \<and>
   parseCurrency ''1.2.3'' \<noteq> spec_parseCurrency ''1.2.3''"
  by (simp add: spec_parseCurrency_def cleaned_dotted not_isDecimal_dotted parseCurrency_dotted)

text \<open>
  C8. Let \<open>k\<close> be the position of the first stored record whose id is \<open>i\<close> (there is
  one whenever the id is present: \<open>present_first_index\<close>). Then \<open>updateExpense\<close>
  returns that record merged with the updates, and the stored collection afterwards has the
  same length, the same id and \<open>createdAt\<close> at every position, the same record at every
  position but \<open>k\<close>, and at \<open>k\<close> the old value of every field the updates do not
  supply.
\<close>

theorem updateExpense_frame:
  assumes kl: "k < length (stored st)" and kid: "id' (stored st ! k) = i"
    and first: "\<forall>j < k. id' (stored st ! j) \<noteq> i"
  shows
    "fst (updateExpense st i updates now) = Some (mergeUpdates (stored st ! k) updates now) \<and>
     stored (snd (updateExpense st i updates now)) =
       (if writable st then (stored st)[k := mergeUpdates (stored st ! k) updates now]
        else stored st) \<and>
     length (stored (snd (updateExpense st i updates now))) = length (stored st) \<and>
     (\<forall>j < length (stored st).
        id' (stored (snd (updateExpense st i updates now)) ! j) = id' (stored st ! j) \<and>
        createdAt (stored (snd (updateExpense st i updates now)) ! j) = createdAt (stored st ! j) \<and>
        (j \<noteq> k \<longrightarrow> stored (snd (updateExpense st i updates now)) ! j = stored st ! j)) \<and>
     (newDate updates = None \<longrightarrow>
        date (stored (snd (updateExpense st i updates now)) ! k) = date (stored st ! k)) \<and>
     (newAmount updates = None \<longrightarrow>
        amount (stored (snd (updateExpense st i updates now)) ! k) = amount (stored st ! k)) \<and>
     (newCategory updates = None \<longrightarrow>
        category (stored (snd (updateExpense st i updates now)) ! k) = category (stored st ! k)) \<and>
     (newDescription updates = None \<longrightarrow>
        description (stored (snd (updateExpense st i updates now)) ! k)
          = description (stored st ! k))"
proof -
  have k: "findIndex (\<lambda>exp. id' exp = i) (stored st) = Some k"
    using kl kid first by (simp add: findIndex_Some)
  define e where "e = mergeUpdates (stored st ! k) updates now"
  have run: "updateExpense st i updates now = (Some e, saveExpenses st ((stored st)[k := e]))"
    by (simp add: updateExpense_def getExpenses_def k e_def Let_def)
  have st': "stored (snd (updateExpense st i updates now)) =
      (if writable st then (stored st)[k := e] else stored st)"
    by (simp add: run saveExpenses_def)
  have frame: "id' (stored (snd (updateExpense st i updates now)) ! j) = id' (stored st ! j) \<and>
        createdAt (stored (snd (updateExpense st i updates now)) ! j) = createdAt (stored st ! j) \<and>
        (j \<noteq> k \<longrightarrow> stored (snd (updateExpense st i updates now)) ! j = stored st ! j)"
    if "j < length (stored st)" for j
    using that by (cases "j = k") (simp_all add: st' e_def mergeUpdates_keeps)
  have fields:
    "newDate updates = None \<longrightarrow>
        date (stored (snd (updateExpense st i updates now)) ! k) = date (stored st ! k)"
    "newAmount updates = None \<longrightarrow>
        amount (stored (snd (updateExpense st i updates now)) ! k) = amount (stored st ! k)"
    "newCategory updates = None \<longrightarrow>
        category (stored (snd (updateExpense st i updates now)) ! k) = category (stored st ! k)"
    "newDescription updates = None \<longrightarrow>
        description (stored (snd (updateExpense st i updates now)) ! k)
          = description (stored st ! k)"
    using kl by (simp_all add: st' e_def mergeUpdates_keeps)
  show ?thesis
  proof (intro conjI)
    show "fst (updateExpense st i updates now) = Some (mergeUpdates (stored st ! k) updates now)"
      by (simp add: run e_def)
    show "stored (snd (updateExpense st i updates now)) =
       (if writable st then (stored st)[k := mergeUpdates (stored st ! k) updates now]
        else stored st)"
      using st' by (simp add: e_def)
    show "length (stored (snd (updateExpense st i updates now))) = length (stored st)"
      by (simp add: st')
    show "\<forall>j < length (stored st).
        id' (stored (snd (updateExpense st i updates now)) ! j) = id' (stored st ! j) \<and>
        createdAt (stored (snd (updateExpense st i updates now)) ! j) = createdAt (stored st ! j) \<and>
        (j \<noteq> k \<longrightarrow> stored (snd (updateExpense st i updates now)) ! j = stored st ! j)"
      using frame by blast
  qed (rule fields)+
qed

theorem updateExpense_frame_witness:
  "2 < length (stored sampleStorage) \<and> id' (stored sampleStorage ! 2) = ''3'' \<and>
   id' (stored sampleStorage ! 0) \<noteq> ''3'' \<and> id' (stored sampleStorage ! 1) \<noteq> ''3'' \<and>
   id' (stored (snd (updateExpense sampleStorage ''3'' sampleUpdates sampleNow)) ! 2) = ''3'' \<and>
   createdAt (stored (snd (updateExpense sampleStorage ''3'' sampleUpdates sampleNow)) ! 2)
     = createdAt (mockExpenses ! 2) \<and>
   date (stored (snd (updateExpense sampleStorage ''3'' sampleUpdates sampleNow)) ! 2)
     = date (mockExpenses ! 2) \<and>
   stored (snd (updateExpense sampleStorage ''3'' sampleUpdates sampleNow)) ! 0 = mockExpenses ! 0 \<and>
   stored (snd (updateExpense sampleStorage ''3'' sampleUpdates sampleNow)) ! 3 = mockExpenses ! 3"
proof -
  have st: "stored sampleStorage = mockExpenses"
    by (simp add: sampleStorage_def)
  have kl: "2 < length (stored sampleStorage)"
    by (simp add: st mock_ids)
  have kid: "id' (stored sampleStorage ! 2) = ''3''"
    by (simp add: st mock_ids)
  have first: "\<forall>j < 2. id' (stored sampleStorage ! j) \<noteq> ''3''"
  proof (intro allI impI)
    fix j :: nat assume "j < 2"
    then have "j = 0 \<or> j = 1" by auto
    then show "id' (stored sampleStorage ! j) \<noteq> ''3''"
    proof
      assume "j = 0"
      then show ?thesis by (simp add: st mock_ids)
    next
      assume "j = 1"
      then show ?thesis by (simp add: st mock_ids)
    qed
  qed
  have none: "newDate sampleUpdates = None"
    by (simp add: sampleUpdates_def)
  note frame = updateExpense_frame [OF kl kid first, of sampleUpdates sampleNow]
  have all: "\<forall>j < length (stored sampleStorage).
        id' (stored (snd (updateExpense sampleStorage ''3'' sampleUpdates sampleNow)) ! j)
          = id' (stored sampleStorage ! j) \<and>
        createdAt (stored (snd (updateExpense sampleStorage ''3'' sampleUpdates sampleNow)) ! j)
          = createdAt (stored sampleStorage ! j) \<and>
        (j \<noteq> 2 \<longrightarrow> stored (snd (updateExpense sampleStorage ''3'' sampleUpdates sampleNow)) ! j
          = stored sampleStorage ! j)"
    using frame by (elim conjE)
  have keep: "date (stored (snd (updateExpense sampleStorage ''3'' sampleUpdates sampleNow)) ! 2)
      = date (stored sampleStorage ! 2)"
    using frame none by (elim conjE) simp
  have a2: "(2::nat) < length (stored sampleStorage)" and a0: "(0::nat) < length (stored sampleStorage)"
    and a3: "(3::nat) < length (stored sampleStorage)"
    by (simp_all add: st mock_ids)
  show ?thesis
    using all [rule_format, OF a2] all [rule_format, OF a0] all [rule_format, OF a3] keep kl kid
    by (simp add: st mock_ids)
qed

text \<open>
  C9, as amended. On a run without overflow the six bucket values sum to
  \<open>totalSpending\<close> up to rounding: with \<open>n\<close> expenses whose magnitudes sum to \<open>a\<close>,
  their exact sum differs from \<open>totalSpending\<close> by at most \<open>roundingBound n a\<close>, and
  their sum by the program's \<open>+\<close> in key order by at most \<open>roundingBound (n + 6) a\<close>.
  When moreover no addition rounds, both sums equal \<open>totalSpending\<close>. Amounts that are
  non-negative whole numbers with a total of at most \<open>2 ^ 53\<close> give such a run.
\<close>

theorem buckets_sum_to_total_up_to_rounding:
  "(noOverflow expenses \<longrightarrow>
      \<bar>categoryBreakdown (calculateSpendingSummary clock expenses) Food +
       categoryBreakdown (calculateSpendingSummary clock expenses) Transportation +
       categoryBreakdown (calculateSpendingSummary clock expenses) Entertainment +
       categoryBreakdown (calculateSpendingSummary clock expenses) Shopping +
       categoryBreakdown (calculateSpendingSummary clock expenses) Bills +
       categoryBreakdown (calculateSpendingSummary clock expenses) Other -
       totalSpending (calculateSpendingSummary clock expenses)\<bar>
        \<le> roundingBound (length expenses)
             (sum_list (map (\<lambda>expense. \<bar>amount expense\<bar>) expenses)) \<and>
      \<bar>foldl jsAdd 0 (map (categoryBreakdown (calculateSpendingSummary clock expenses)) categoryKeys) -
       totalSpending (calculateSpendingSummary clock expenses)\<bar>
        \<le> roundingBound (length expenses + 6)
             (sum_list (map (\<lambda>expense. \<bar>amount expense\<bar>) expenses))) \<and>
   (noOverflow expenses \<and> noRounding expenses \<longrightarrow>
      categoryBreakdown (calculateSpendingSummary clock expenses) Food +
      categoryBreakdown (calculateSpendingSummary clock expenses) Transportation +
      categoryBreakdown (calculateSpendingSummary clock expenses) Entertainment +
      categoryBreakdown (calculateSpendingSummary clock expenses) Shopping +
      categoryBreakdown (calculateSpendingSummary clock expenses) Bills +
      categoryBreakdown (calculateSpendingSummary clock expenses) Other
        = totalSpending (calculateSpendingSummary clock expenses) \<and>
      foldl jsAdd 0 (map (categoryBreakdown (calculateSpendingSummary clock expenses)) categoryKeys)
        = totalSpending (calculateSpendingSummary clock expenses)) \<and>
   ((\<forall>expense \<in> set expenses. \<exists>n. 0 \<le> n \<and> amount expense = real_of_int n) \<and>
    sum_list (map amount expenses) \<le> 2 ^ 53 \<longrightarrow>
      noOverflow expenses \<and> noRounding expenses)"
proof -
  have cb: "categoryBreakdown (calculateSpendingSummary clock expenses) = breakdownOf expenses"
    and tot: "totalSpending (calculateSpendingSummary clock expenses) = sumAmounts expenses"
    by (simp_all add: calculateSpendingSummary_def Let_def)
  show ?thesis
    unfolding cb tot
    using exact_bucket_sum_error [of expenses] program_bucket_sum_error [of expenses]
      noRounding_sums [of expenses] whole_amounts_exact [of expenses]
    by blast
qed

theorem buckets_sum_to_total_up_to_rounding_witness:
  "noOverflow decimalExpenses \<and>
   \<bar>categoryBreakdown (calculateSpendingSummary sampleClock decimalExpenses) Food +
    categoryBreakdown (calculateSpendingSummary sampleClock decimalExpenses) Transportation +
    categoryBreakdown (calculateSpendingSummary sampleClock decimalExpenses) Entertainment +
    categoryBreakdown (calculateSpendingSummary sampleClock decimalExpenses) Shopping +
    categoryBreakdown (calculateSpendingSummary sampleClock decimalExpenses) Bills +
    categoryBreakdown (calculateSpendingSummary sampleClock decimalExpenses) Other -
    totalSpending (calculateSpendingSummary sampleClock decimalExpenses)\<bar>
     \<le> roundingBound (length decimalExpenses)
          (sum_list (map (\<lambda>expense. \<bar>amount expense\<bar>) decimalExpenses)) \<and>
   noOverflow roundingExpenses \<and>
   \<bar>categoryBreakdown (calculateSpendingSummary sampleClock roundingExpenses) Food +
    categoryBreakdown (calculateSpendingSummary sampleClock roundingExpenses) Transportation +
    categoryBreakdown (calculateSpendingSummary sampleClock roundingExpenses) Entertainment +
    categoryBreakdown (calculateSpendingSummary sampleClock roundingExpenses) Shopping +
    categoryBreakdown (calculateSpendingSummary sampleClock roundingExpenses) Bills +
    categoryBreakdown (calculateSpendingSummary sampleClock roundingExpenses) Other -
    totalSpending (calculateSpendingSummary sampleClock roundingExpenses)\<bar>
     \<le> roundingBound (length roundingExpenses)
          (sum_list (map (\<lambda>expense. \<bar>amount expense\<bar>) roundingExpenses)) \<and>
   \<bar>foldl jsAdd 0
      (map (categoryBreakdown (calculateSpendingSummary sampleClock roundingExpenses)) categoryKeys) -
    totalSpending (calculateSpendingSummary sampleClock roundingExpenses)\<bar>
     \<le> roundingBound (length roundingExpenses + 6)
          (sum_list (map (\<lambda>expense. \<bar>amount expense\<bar>) roundingExpenses)) \<and>
   sum_list (map amount mockExpenses) \<le> 2 ^ 53 \<and>
   noOverflow mockExpenses \<and> noRounding mockExpenses \<and>
   categoryBreakdown (calculateSpendingSummary sampleClock mockExpenses) Food +
   categoryBreakdown (calculateSpendingSummary sampleClock mockExpenses) Transportation +
   categoryBreakdown (calculateSpendingSummary sampleClock mockExpenses) Entertainment +
   categoryBreakdown (calculateSpendingSummary sampleClock mockExpenses) Shopping +
   categoryBreakdown (calculateSpendingSummary sampleClock mockExpenses) Bills +
   categoryBreakdown (calculateSpendingSummary sampleClock mockExpenses) Other = 425 \<and>
   foldl jsAdd 0
     (map (categoryBreakdown (calculateSpendingSummary sampleClock mockExpenses)) categoryKeys) = 425"
proof -
  note rounding = buckets_sum_to_total_up_to_rounding [of roundingExpenses sampleClock]
  note decimal = buckets_sum_to_total_up_to_rounding [of decimalExpenses sampleClock]
  note mock = buckets_sum_to_total_up_to_rounding [of mockExpenses sampleClock]
  have small: "sum_list (map amount mockExpenses) \<le> 2 ^ 53"
    by (simp add: mock_sum)
  have exact: "noOverflow mockExpenses \<and> noRounding mockExpenses"
    using mock mock_whole small by blast
  have total: "totalSpending (calculateSpendingSummary sampleClock mockExpenses) = 425"
    by (simp add: calculateSpendingSummary_def Let_def mock_total)
  have sums: "categoryBreakdown (calculateSpendingSummary sampleClock mockExpenses) Food +
      categoryBreakdown (calculateSpendingSummary sampleClock mockExpenses) Transportation +
      categoryBreakdown (calculateSpendingSummary sampleClock mockExpenses) Entertainment +
      categoryBreakdown (calculateSpendingSummary sampleClock mockExpenses) Shopping +
      categoryBreakdown (calculateSpendingSummary sampleClock mockExpenses) Bills +
      categoryBreakdown (calculateSpendingSummary sampleClock mockExpenses) Other = 425 \<and>
    foldl jsAdd 0
      (map (categoryBreakdown (calculateSpendingSummary sampleClock mockExpenses)) categoryKeys) = 425"
    using mock exact unfolding total by blast
  show ?thesis
    using rounding rounding_noOverflow decimal decimal_noOverflow small exact sums by blast
qed

text \<open>
  C9 as stated fails: with the amounts 0.1 (Food), 0.7 (Transportation) and 0.3 (Food) the
  total is \<open>(0.1 + 0.7) + 0.3 = 1.0999999999999999\<close>, while the buckets are
  \<open>0.1 + 0.3 = 0.4\<close> and \<open>0.7\<close>, whose sum is 1.1 when added as numbers and differs
  from the total when added exactly as well.
\<close>

theorem buckets_sum_counterexample:
  "categoryBreakdown (calculateSpendingSummary sampleClock roundingExpenses) Food +
   categoryBreakdown (calculateSpendingSummary sampleClock roundingExpenses) Transportation +
   categoryBreakdown (calculateSpendingSummary sampleClock roundingExpenses) Entertainment +
   categoryBreakdown (calculateSpendingSummary sampleClock roundingExpenses) Shopping +
   categoryBreakdown (calculateSpendingSummary sampleClock roundingExpenses) Bills +
   categoryBreakdown (calculateSpendingSummary sampleClock roundingExpenses) Other
     \<noteq> totalSpending (calculateSpendingSummary sampleClock roundingExpenses) \<and>
   foldl jsAdd 0 (map (categoryBreakdown (calculateSpendingSummary sampleClock roundingExpenses))
     categoryKeys) \<noteq> totalSpending (calculateSpendingSummary sampleClock roundingExpenses)"
proof -
  have cb: "categoryBreakdown (calculateSpendingSummary sampleClock roundingExpenses)
      = breakdownOf roundingExpenses"
    and tot: "totalSpending (calculateSpendingSummary sampleClock roundingExpenses)
      = sumAmounts roundingExpenses"
    by (simp_all add: calculateSpendingSummary_def Let_def)
  show ?thesis
    unfolding cb tot
    by (simp add: rounding_total rounding_food rounding_transportation rounding_rest
        rounding_bucket_sum)
qed

text \<open>
  C10. \<open>parseCurrency\<close> never returns a negative number: a minus sign is removed with
  every other character that is neither a digit nor a decimal point, so a pound sign
  followed by "-50.00" gives 50.
\<close>

theorem parseCurrency_never_negative:
  "0 \<le> parseCurrency s \<and> parseCurrency (pound @ ''-50.00'') = 50"
  by (simp add: parseCurrency_nonneg parseCurrency_minus)

end
